theory Spec2Isabelle
  imports Main "HOL-Library.Sublist"
begin

section \<open>Kawatte: recursive find and replace\<close>

text \<open>
  A shallow embedding of package \<^verbatim>\<open>replaceall\<close>: \<^verbatim>\<open>replaceall/replaceall.go\<close> and the
  other variant of that file in the repository, which walks with \<^verbatim>\<open>filepath.Walk\<close> and
  stats a file before writing it. Go strings are byte sequences:
  \<^typ>\<open>string\<close>, a list of 8-bit characters. The functions of the Go standard library that
  the package calls (\<^verbatim>\<open>strings.Replacer\<close>, \<^verbatim>\<open>filepath.WalkDir\<close>, \<^verbatim>\<open>filepath.Walk\<close>,
  \<^verbatim>\<open>flag.FlagSet\<close>) are modelled after the library's own sources, next to the code that
  calls them.
\<close>

subsection \<open>\<^verbatim>\<open>strings.Replacer\<close>\<close>

text \<open>\<^verbatim>\<open>strings.HasPrefix(s, prefix)\<close>: \<^verbatim>\<open>len(s) >= len(prefix) && s[:len(prefix)] == prefix\<close>.\<close>

definition HasPrefix :: "string \<Rightarrow> string \<Rightarrow> bool" where
  "HasPrefix s pre = (length pre \<le> length s \<and> take (length pre) s = pre)"

text \<open>
  \<^verbatim>\<open>NewReplacer(oldnew ...string)\<close> takes the flat list \<^verbatim>\<open>old1, new1, old2, new2, ...\<close> and
  its algorithms step through it two at a time.
\<close>

fun pairs :: "string list \<Rightarrow> (string \<times> string) list" where
  "pairs (old # new # rest) = (old, new) # pairs rest"
| "pairs _ = []"

text \<open>
  \<^verbatim>\<open>genericReplacer.lookup(s, ignoreRoot)\<close> walks the trie of the old strings along \<^verbatim>\<open>s\<close>
  and returns the value and key length of the node of highest priority on that path. The
  nodes on the path are the old strings that are prefixes of \<^verbatim>\<open>s\<close>; \<^verbatim>\<open>makeGenericReplacer\<close>
  adds the pair at index \<^verbatim>\<open>i\<close> with priority \<^verbatim>\<open>len(oldnew)-i\<close>, and \<^verbatim>\<open>trieNode.add\<close> keeps
  the value a key already has. So the node of highest priority is the first pair of the
  argument list whose old string is a prefix of \<^verbatim>\<open>s\<close>; with \<^verbatim>\<open>ignoreRoot\<close> the root, which
  is the empty key, is passed over.
\<close>

fun lookup :: "(string \<times> string) list \<Rightarrow> string \<Rightarrow> bool \<Rightarrow> (string \<times> nat) option" where
  "lookup [] s ignoreRoot = None"
| "lookup ((old, new) # rest) s ignoreRoot =
     (if HasPrefix s old \<and> (if ignoreRoot then old \<noteq> [] else True)
      then Some (new, length old)
      else lookup rest s ignoreRoot)"

lemma HasPrefix_prefix: "HasPrefix s pre = prefix pre s"
  by (auto simp: HasPrefix_def prefix_def take_is_prefix dest: prefix_length_le)
     (metis append_eq_conv_conj)

lemma lookup_bounds:
  "lookup ps s b = Some (v, k) \<Longrightarrow> k \<le> length s \<and> (if b then 0 < k else True)"
  by (induction ps) (auto simp: HasPrefix_def split: if_splits)

text \<open>
  \<^verbatim>\<open>genericReplacer.WriteString\<close>, the loop \<^verbatim>\<open>for i := 0; i <= len(s); { ... }\<close>. The
  model's \<open>s\<close> is the rest \<^verbatim>\<open>s[i:]\<close>. On a match the value is written and \<^verbatim>\<open>i\<close> advances by
  the key length; an empty match is ignored when the previous iteration found the empty
  match; with no match the byte is copied and \<^verbatim>\<open>i\<close> advances by one. The loop ends after
  the iteration at \<^verbatim>\<open>i = len(s)\<close> that finds no match.
\<close>

function genericReplace :: "(string \<times> string) list \<Rightarrow> string \<Rightarrow> bool \<Rightarrow> string" where
  "genericReplace ps s prevMatchEmpty =
     (case lookup ps s prevMatchEmpty of
        Some (val, keylen) \<Rightarrow> val @ genericReplace ps (drop keylen s) (keylen = 0)
      | None \<Rightarrow> (case s of [] \<Rightarrow> [] | c # cs \<Rightarrow> c # genericReplace ps cs False))"
  by pat_completeness auto
termination
proof (relation "measure (\<lambda>(ps, s, b). 2 * length s + (if b then 0 else 1))", goal_cases)
  case 1
  show ?case by simp
next
  case (2 ps s b c cs)
  then show ?case by simp
next
  case (3 ps s b x val keylen)
  from lookup_bounds [of ps s b val keylen] 3 show ?case
    by (auto split: if_splits)
qed

declare genericReplace.simps [simp del]

text \<open>
  \<^verbatim>\<open>stringFinder.next(text)\<close>: the index of the first occurrence of the pattern in the
  text, or -1 (\<open>None\<close>).
\<close>

fun finder_next :: "string \<Rightarrow> string \<Rightarrow> nat option" where
  "finder_next pattern [] = (if pattern = [] then Some 0 else None)"
| "finder_next pattern (c # cs) =
     (if HasPrefix (c # cs) pattern then Some 0
      else map_option Suc (finder_next pattern cs))"

lemma finder_next_bound: "finder_next pattern s = Some m \<Longrightarrow> m + length pattern \<le> length s"
  by (induction s arbitrary: m) (auto simp: HasPrefix_def split: if_splits)

text \<open>
  \<^verbatim>\<open>singleStringReplacer.Replace\<close>: copy up to the next occurrence, write the value, go on
  after the occurrence. \<^verbatim>\<open>build\<close> makes this replacer only for a pattern of more than one
  byte; the model returns the text unchanged for the empty pattern, for which the
  library never runs the loop.
\<close>

function singleReplace :: "string \<Rightarrow> string \<Rightarrow> string \<Rightarrow> string" where
  "singleReplace pattern val s =
     (if pattern = [] then s
      else (case finder_next pattern s of
              None \<Rightarrow> s
            | Some m \<Rightarrow> take m s @ val @ singleReplace pattern val (drop (m + length pattern) s)))"
  by pat_completeness auto
termination
proof (relation "measure (\<lambda>(pattern, val, s). length s)", goal_cases)
  case 1
  show ?case by simp
next
  case (2 pattern val s m)
  from finder_next_bound [of pattern s m] 2 show ?case
    by (cases pattern) auto
qed

declare singleReplace.simps [simp del]

text \<open>
  The four algorithms of \<^verbatim>\<open>strings/replace.go\<close>: \<^verbatim>\<open>singleStringReplacer\<close> (pattern, value),
  \<^verbatim>\<open>byteReplacer\<close> (a table \<^verbatim>\<open>[256]byte\<close>), \<^verbatim>\<open>byteStringReplacer\<close> (a table \<^verbatim>\<open>[256][]byte\<close>,
  \<^verbatim>\<open>nil\<close> where a byte is not replaced) and \<^verbatim>\<open>genericReplacer\<close> (the trie of the pairs).
\<close>

datatype replacer =
    SingleString string string
  | ByteRep "char \<Rightarrow> char"
  | ByteStringRep "char \<Rightarrow> string option"
  | Generic "(string \<times> string) list"

text \<open>
  \<^verbatim>\<open>Replacer.build\<close>. One pair whose old string has more than one byte gives the single
  string replacer; an old string that is not exactly one byte gives the generic replacer;
  otherwise a byte table. Both tables are filled from the last pair down to the first
  (\<^verbatim>\<open>for i := len(oldnew) - 2; i >= 0; i -= 2\<close>), so that the first occurrence of an old
  byte takes precedence.
\<close>

fun byteTable :: "(string \<times> string) list \<Rightarrow> char \<Rightarrow> char" where
  "byteTable [] = (\<lambda>b. b)"
| "byteTable ((old, new) # rest) = (byteTable rest)(hd old := hd new)"

fun byteStringTable :: "(string \<times> string) list \<Rightarrow> char \<Rightarrow> string option" where
  "byteStringTable [] = (\<lambda>b. None)"
| "byteStringTable ((old, new) # rest) = (byteStringTable rest)(hd old \<mapsto> new)"

definition build :: "string list \<Rightarrow> replacer" where
  "build oldnew =
     (if length oldnew = 2 \<and> 1 < length (oldnew ! 0) then SingleString (oldnew ! 0) (oldnew ! 1)
      else if list_ex (\<lambda>(old, new). length old \<noteq> 1) (pairs oldnew) then Generic (pairs oldnew)
      else if list_all (\<lambda>(old, new). length new = 1) (pairs oldnew)
      then ByteRep (byteTable (pairs oldnew))
      else ByteStringRep (byteStringTable (pairs oldnew)))"

text \<open>
  \<^verbatim>\<open>NewReplacer\<close> panics on an odd number of arguments (\<open>None\<close>); the replacer is built on
  first use.
\<close>

definition NewReplacer :: "string list \<Rightarrow> replacer option" where
  "NewReplacer oldnew = (if odd (length oldnew) then None else Some (build oldnew))"

fun Replace :: "replacer \<Rightarrow> string \<Rightarrow> string" where
  "Replace (SingleString pattern val) s = singleReplace pattern val s"
| "Replace (ByteRep r) s = map r s"
| "Replace (ByteStringRep replacements) s =
     concat (map (\<lambda>b. case replacements b of None \<Rightarrow> [b] | Some new \<Rightarrow> new) s)"
| "Replace (Generic ps) s = genericReplace ps s False"

subsection \<open>The application environment, errors and the outside world\<close>

text \<open>
  \<^verbatim>\<open>type appEnv struct\<close>. The loggers are left out: what they print goes to standard error
  (or is discarded) and no function of the package reads it back; \<open>verbose\<close> records that
  \<^verbatim>\<open>-verbose\<close> redirected the log to standard error.
\<close>

record appEnv =
  patFile :: string
  dir :: string
  incFile :: "string list"
  exFile :: "string list"
  incDir :: "string list"
  exDir :: "string list"
  dryRun :: bool
  verbose :: bool

text \<open>Errors of the operating system, and of the CSV reader.\<close>

datatype oserr = ENOENT | EACCES | EISDIR | EIO

datatype csverr = ErrFieldCount | ErrParse string

text \<open>
  The \<^verbatim>\<open>error\<close> values the package returns, one constructor for each place that makes
  one, and the run-time panics of the Go code (an index out of range, an odd argument
  count for \<^verbatim>\<open>NewReplacer\<close>).
\<close>

datatype error =
    ErrHelp
  | ErrBadFlagSyntax string
  | ErrNotDefined string
  | ErrNeedsArgument string
  | ErrInvalidValue string string
  | ErrMissingFlag string
  | ErrOpening oserr
  | ErrReadingPatterns string csverr
  | ErrReading string oserr
  | ErrStating string oserr
  | ErrWriting string oserr
  | Panic

text \<open>
  The outside world: the files by path, with content and permission mode; the faults
  that make a call on a path fail whatever the file is; the lines printed on standard
  output (\<^verbatim>\<open>fmt.Printf("* %q\n", filePath)\<close> is recorded as the path); and the calls
  made so far, in order.
\<close>

record osfile =
  content :: string
  mode :: nat

datatype call =
    OpenCall string
  | WalkCall string
  | ReadFileCall string
  | StatCall string
  | WriteFileCall string string nat

record world =
  files :: "string \<Rightarrow> osfile option"
  readFault :: "string \<Rightarrow> oserr option"
  statFault :: "string \<Rightarrow> oserr option"
  writeFault :: "string \<Rightarrow> oserr option"
  stdout :: "string list"
  calls :: "call list"

definition called :: "call \<Rightarrow> world \<Rightarrow> world" where
  "called c w = w\<lparr>calls := calls w @ [c]\<rparr>"

text \<open>\<^verbatim>\<open>os.ReadFile\<close> (and \<^verbatim>\<open>os.Open\<close> followed by reading the file to its end).\<close>

definition readContent :: "world \<Rightarrow> string \<Rightarrow> oserr + string" where
  "readContent w path =
     (case readFault w path of
        Some e \<Rightarrow> Inl e
      | None \<Rightarrow> (case files w path of None \<Rightarrow> Inl ENOENT | Some f \<Rightarrow> Inr (content f)))"

definition ReadFile :: "string \<Rightarrow> world \<Rightarrow> (oserr + string) \<times> world" where
  "ReadFile path w = (readContent w path, called (ReadFileCall path) w)"

definition Open :: "string \<Rightarrow> world \<Rightarrow> (oserr + string) \<times> world" where
  "Open path w = (readContent w path, called (OpenCall path) w)"

text \<open>\<^verbatim>\<open>os.Stat(path)\<close>, of which the package uses \<^verbatim>\<open>info.Mode()\<close>.\<close>

definition Stat :: "string \<Rightarrow> world \<Rightarrow> (oserr + nat) \<times> world" where
  "Stat path w =
     ((case statFault w path of
         Some e \<Rightarrow> Inl e
       | None \<Rightarrow> (case files w path of None \<Rightarrow> Inl ENOENT | Some f \<Rightarrow> Inr (mode f))),
      called (StatCall path) w)"

text \<open>
  \<^verbatim>\<open>os.WriteFile(name, data, perm)\<close> opens with \<^verbatim>\<open>O_WRONLY|O_CREATE|O_TRUNC\<close>: an existing
  file keeps its mode and gets the data, a missing one is created with \<^verbatim>\<open>perm\<close>. A fault
  is a failure to open: the file stays as it is.
\<close>

definition WriteFile :: "string \<Rightarrow> string \<Rightarrow> nat \<Rightarrow> world \<Rightarrow> oserr option \<times> world" where
  "WriteFile path data perm w =
     (case writeFault w path of
        Some e \<Rightarrow> (Some e, called (WriteFileCall path data perm) w)
      | None \<Rightarrow>
          (None, called (WriteFileCall path data perm)
             (w\<lparr>files := (files w)(path \<mapsto>
                  (case files w path of
                     None \<Rightarrow> \<lparr>content = data, mode = perm\<rparr>
                   | Some f \<Rightarrow> f\<lparr>content := data\<rparr>))\<rparr>)))"

subsection \<open>\<^verbatim>\<open>loadSubstitutions\<close>\<close>

text \<open>
  \<^verbatim>\<open>encoding/csv\<close>: the reader's parsing of the data into records is a parameter \<open>csv\<close>
  of the model. \<^verbatim>\<open>ReadAll\<close> with \<^verbatim>\<open>FieldsPerRecord = n > 0\<close> fails with
  \<^verbatim>\<open>ErrFieldCount\<close> unless every record has \<open>n\<close> fields.
\<close>

type_synonym csvreader = "string \<Rightarrow> csverr + string list list"

definition ReadAll :: "csvreader \<Rightarrow> nat \<Rightarrow> string \<Rightarrow> csverr + string list list" where
  "ReadAll csv fieldsPerRecord data =
     (case csv data of
        Inl e \<Rightarrow> Inl e
      | Inr records \<Rightarrow>
          if list_all (\<lambda>record. length record = fieldsPerRecord) records then Inr records
          else Inl ErrFieldCount)"

text \<open>
  The loop \<^verbatim>\<open>for _, record := range records { replacements = append(replacements,
  record[0], record[1]) }\<close>; an index out of range panics (\<open>None\<close>).
\<close>

fun replacements :: "string list list \<Rightarrow> string list option" where
  "replacements [] = Some []"
| "replacements (record # records) =
     (if length record < 2 then None
      else map_option (\<lambda>rest. record ! 0 # record ! 1 # rest) (replacements records))"

definition loadSubstitutions ::
  "csvreader \<Rightarrow> appEnv \<Rightarrow> world \<Rightarrow> (error + replacer) \<times> world" where
  "loadSubstitutions csv app w =
     (case Open (patFile app) w of
        (Inl err, w') \<Rightarrow> (Inl (ErrOpening err), w')
      | (Inr data, w') \<Rightarrow>
          (case ReadAll csv 2 data of
             Inl err \<Rightarrow> (Inl (ErrReadingPatterns (patFile app) err), w')
           | Inr records \<Rightarrow>
               (case replacements records of
                  None \<Rightarrow> (Inl Panic, w')
                | Some oldnew \<Rightarrow>
                    (case NewReplacer oldnew of
                       None \<Rightarrow> (Inl Panic, w')
                     | Some replacer \<Rightarrow> (Inr replacer, w')))))"

subsection \<open>\<^verbatim>\<open>processFile\<close>\<close>

text \<open>
  \<^verbatim>\<open>processFile\<close> of \<^verbatim>\<open>replaceall/replaceall.go\<close>, which writes with the fixed mode
  \<^verbatim>\<open>0o644\<close> (420).
\<close>

definition processFile :: "appEnv \<Rightarrow> string \<Rightarrow> replacer \<Rightarrow> world \<Rightarrow> error option \<times> world" where
  "processFile app filePath replacer w =
     (case ReadFile filePath w of
        (Inl err, w1) \<Rightarrow> (Some (ErrReading filePath err), w1)
      | (Inr oldContent, w1) \<Rightarrow>
          (let newContent = Replace replacer oldContent in
           if dryRun app
           then (None, if oldContent \<noteq> newContent
                       then w1\<lparr>stdout := stdout w1 @ [filePath]\<rparr> else w1)
           else (case WriteFile filePath newContent 420 w1 of
                   (Some err, w2) \<Rightarrow> (Some (ErrWriting filePath err), w2)
                 | (None, w2) \<Rightarrow> (None, w2))))"

text \<open>
  \<^verbatim>\<open>processFile\<close> of the other variant of the file, which stats the file and writes with
  the mode it finds.
\<close>

definition processFile_Stat ::
  "appEnv \<Rightarrow> string \<Rightarrow> replacer \<Rightarrow> world \<Rightarrow> error option \<times> world" where
  "processFile_Stat app filePath replacer w =
     (case ReadFile filePath w of
        (Inl err, w1) \<Rightarrow> (Some (ErrReading filePath err), w1)
      | (Inr oldContent, w1) \<Rightarrow>
          (let newContent = Replace replacer oldContent in
           if dryRun app
           then (None, if oldContent \<noteq> newContent
                       then w1\<lparr>stdout := stdout w1 @ [filePath]\<rparr> else w1)
           else (case Stat filePath w1 of
                   (Inl err, w2) \<Rightarrow> (Some (ErrStating filePath err), w2)
                 | (Inr info_mode, w2) \<Rightarrow>
                     (case WriteFile filePath newContent info_mode w2 of
                        (Some err, w3) \<Rightarrow> (Some (ErrWriting filePath err), w3)
                      | (None, w3) \<Rightarrow> (None, w3)))))"

subsection \<open>\<^verbatim>\<open>filepath.Match\<close>\<close>

text \<open>
  The walk calls \<^verbatim>\<open>filepath.Match(glob, name)\<close> and uses the \<^verbatim>\<open>matched\<close> result only (a
  malformed pattern gives \<^verbatim>\<open>false\<close> and an error that the caller drops). The functions of
  the walk take the matcher as a parameter \<open>m\<close>, so what is proved of them holds for
  every matcher. \<open>Match\<close> below is the instance used on concrete trees: the pattern language
  of \<^verbatim>\<open>filepath.Match\<close> on Unix (\<^verbatim>\<open>*\<close>, \<^verbatim>\<open>?\<close>, classes \<^verbatim>\<open>[...]\<close> with ranges and \<^verbatim>\<open>^\<close>,
  \<^verbatim>\<open>\\<close> escapes), read byte by byte: a rune is one byte, as in ASCII names and patterns.
\<close>

type_synonym matcher = "string \<Rightarrow> string \<Rightarrow> bool"

text \<open>\<^verbatim>\<open>getEsc\<close>: one possibly escaped character of a class, and the rest, which must not be empty.\<close>

fun getEsc :: "string \<Rightarrow> (char \<times> string) option" where
  "getEsc [] = None"
| "getEsc (c # cs) =
     (if c = CHR ''-'' \<or> c = CHR '']'' then None
      else if c = CHR 0x5C
      then (case cs of [] \<Rightarrow> None | d # ds \<Rightarrow> if ds = [] then None else Some (d, ds))
      else if cs = [] then None else Some (c, cs))"

lemma getEsc_shorter: "getEsc chunk = Some (r, rest) \<Longrightarrow> length rest < length chunk"
  by (cases chunk) (auto split: if_splits list.splits)

text \<open>
  The ranges of a class, up to the closing bracket: whether the byte \<open>r\<close> is in one of
  them, and the pattern after the class; \<open>None\<close> for a malformed class.
\<close>

function classRanges :: "string \<Rightarrow> char \<Rightarrow> nat \<Rightarrow> bool \<Rightarrow> (bool \<times> string) option" where
  "classRanges chunk r nrange matched =
     (if chunk \<noteq> [] \<and> hd chunk = CHR '']'' \<and> 0 < nrange then Some (matched, tl chunk)
      else (case getEsc chunk of
              None \<Rightarrow> None
            | Some (lo, chunk1) \<Rightarrow>
                if hd chunk1 = CHR ''-''
                then (case getEsc (tl chunk1) of
                        None \<Rightarrow> None
                      | Some (hi, chunk2) \<Rightarrow>
                          classRanges chunk2 r (Suc nrange)
                            (matched \<or> ((of_char lo :: nat) \<le> of_char r \<and> (of_char r :: nat) \<le> of_char hi)))
                else classRanges chunk1 r (Suc nrange) (matched \<or> lo = r)))"
  by pat_completeness auto
termination
proof (relation "measure (\<lambda>(chunk, r, nrange, matched). length chunk)", goal_cases)
  case 1
  show ?case by simp
next
  case (2 chunk r nrange matched x lo chunk1 y hi chunk2)
  from getEsc_shorter [of chunk lo chunk1] getEsc_shorter [of "tl chunk1" hi chunk2] 2
  show ?case by (cases chunk1) auto
next
  case (3 chunk r nrange matched x lo chunk1)
  from getEsc_shorter [of chunk lo chunk1] 3 show ?case by auto
qed

declare classRanges.simps [simp del]

lemma classRanges_end:
  "chunk \<noteq> [] \<Longrightarrow> hd chunk = CHR '']'' \<Longrightarrow> 0 < nrange \<Longrightarrow>
   classRanges chunk r nrange matched = Some (matched, tl chunk)"
  by (subst classRanges.simps) simp

lemma classRanges_step:
  "\<not> (chunk \<noteq> [] \<and> hd chunk = CHR '']'' \<and> 0 < nrange) \<Longrightarrow>
   classRanges chunk r nrange matched =
     (case getEsc chunk of
        None \<Rightarrow> None
      | Some (lo, chunk1) \<Rightarrow>
          if hd chunk1 = CHR ''-''
          then (case getEsc (tl chunk1) of
                  None \<Rightarrow> None
                | Some (hi, chunk2) \<Rightarrow>
                    classRanges chunk2 r (Suc nrange)
                      (matched \<or> ((of_char lo :: nat) \<le> of_char r \<and> (of_char r :: nat) \<le> of_char hi)))
          else classRanges chunk1 r (Suc nrange) (matched \<or> lo = r))"
  by (subst classRanges.simps) (simp only: if_False)

lemma classRanges_shorter:
  "classRanges chunk r nrange matched = Some (b, rest) \<Longrightarrow> length rest < length chunk"
proof (induction chunk r nrange matched rule: classRanges.induct)
  case (1 chunk r nrange matched)
  show ?case
  proof (cases "chunk \<noteq> [] \<and> hd chunk = CHR '']'' \<and> 0 < nrange")
    case True
    with "1.prems" show ?thesis
      by (cases chunk) (auto simp: classRanges_end)
  next
    case False
    note step = classRanges_step [OF False, of r matched]
    from "1.prems" step obtain lo chunk1 where lo: "getEsc chunk = Some (lo, chunk1)"
      by (cases "getEsc chunk") auto
    note l1 = getEsc_shorter [OF lo]
    show ?thesis
    proof (cases "hd chunk1 = CHR ''-''")
      case True
      from "1.prems" step lo True obtain hi chunk2 where hi: "getEsc (tl chunk1) = Some (hi, chunk2)"
        by (cases "getEsc (tl chunk1)") auto
      from lo True hi "1.prems" step
      have "classRanges chunk2 r (Suc nrange)
              (matched \<or> ((of_char lo :: nat) \<le> of_char r \<and> (of_char r :: nat) \<le> of_char hi))
            = Some (b, rest)"
        by simp
      from "1.IH"(1) [OF False lo refl True hi refl this] getEsc_shorter [OF hi] l1
      show ?thesis by (cases chunk1) auto
    next
      case nodash: False
      from lo nodash "1.prems" step
      have "classRanges chunk1 r (Suc nrange) (matched \<or> lo = r) = Some (b, rest)"
        by simp
      from "1.IH"(2) [OF False lo refl nodash this] l1 show ?thesis by simp
    qed
  qed
qed

text \<open>A class: an optional \<^verbatim>\<open>^\<close> negates it; the byte matches when \<^verbatim>\<open>match != negated\<close>.\<close>

definition matchClass :: "string \<Rightarrow> char \<Rightarrow> (bool \<times> string) option" where
  "matchClass chunk r =
     (if chunk \<noteq> [] \<and> hd chunk = CHR ''^''
      then map_option (\<lambda>(matched, rest). (\<not> matched, rest)) (classRanges (tl chunk) r 0 False)
      else classRanges chunk r 0 False)"

lemma matchClass_shorter: "matchClass chunk r = Some (b, rest) \<Longrightarrow> length rest < length chunk"
  by (cases chunk) (auto simp: matchClass_def split: if_splits dest: classRanges_shorter)

text \<open>
  \<open>Match pattern name\<close>. A star matches any sequence of bytes other than the separator;
  a question mark one byte other than the separator; a class one byte; anything else
  itself.
\<close>

function Match :: "string \<Rightarrow> string \<Rightarrow> bool" where
  "Match [] name = (name = [])"
| "Match (p # ps) name =
     (if p = CHR ''*''
      then (if Match ps name then True
            else (case name of [] \<Rightarrow> False
                  | c # cs \<Rightarrow> if c = CHR ''/'' then False else Match (p # ps) cs))
      else if p = CHR ''?''
      then (case name of [] \<Rightarrow> False
            | c # cs \<Rightarrow> if c = CHR ''/'' then False else Match ps cs)
      else if p = CHR ''[''
      then (case name of [] \<Rightarrow> False
            | c # cs \<Rightarrow> (case matchClass ps c of
                          None \<Rightarrow> False
                        | Some (ok, rest) \<Rightarrow> if ok then Match rest cs else False))
      else if p = CHR 0x5C
      then (case ps of [] \<Rightarrow> False
            | q # qs \<Rightarrow> (case name of [] \<Rightarrow> False
                         | c # cs \<Rightarrow> if c = q then Match qs cs else False))
      else (case name of [] \<Rightarrow> False
            | c # cs \<Rightarrow> if c = p then Match ps cs else False))"
  by pat_completeness auto
termination
proof (relation "measure (\<lambda>(pattern, name). length pattern + length name)", goal_cases)
  case (5 p ps name c cs x ok rest)
  from matchClass_shorter [of ps c ok rest] 5 show ?case by simp
qed simp_all

declare Match.simps [simp del]

subsection \<open>The directory tree and the walks of \<^verbatim>\<open>path/filepath\<close>\<close>

text \<open>
  What the walk finds on disk. \<open>File\<close> is any entry that is not a directory. A directory
  has the entries that \<^verbatim>\<open>ReadDir\<close> returns, in its (lexical) order, and the error that
  \<^verbatim>\<open>ReadDir\<close> may return with them. \<open>NoStat\<close> is a name whose \<^verbatim>\<open>Lstat\<close> fails.
\<close>

datatype entry =
    File string
  | Dir string "entry list" "oserr option"
  | NoStat string oserr

fun name :: "entry \<Rightarrow> string" where
  "name (File n) = n"
| "name (Dir n entries rderr) = n"
| "name (NoStat n err) = n"

text \<open>
  \<^verbatim>\<open>filepath.Join(path, name)\<close> for a path that \<^verbatim>\<open>Clean\<close> leaves as it is and the name of a
  directory entry: \<^verbatim>\<open>Clean(path + "/" + name)\<close>.
\<close>

definition Join :: "string \<Rightarrow> string \<Rightarrow> string" where
  "Join path n =
     (if path = ''.'' then n else if path = ''/'' then ''/'' @ n else path @ ''/'' @ n)"

text \<open>
  The function literal that \<^verbatim>\<open>walkDir\<close> passes to the walk. It returns \<^verbatim>\<open>nil\<close> or
  \<^verbatim>\<open>filepath.SkipDir\<close> and may append the path to \<^verbatim>\<open>paths\<close>; the model returns which of
  its \<^verbatim>\<open>return\<close> statements is reached, each of which the source logs with its own message.
\<close>

datatype verdict =
    WalkError
  | RootDir
  | ExcludeDir
  | MatchDir
  | NoMatchDir
  | ExcludeFile
  | MatchFile
  | NoMatchFile

text \<open>\<^verbatim>\<open>for _, glob := range globs { if matched, _ := filepath.Match(glob, name); matched {...} }\<close>\<close>

fun anyMatch :: "matcher \<Rightarrow> string list \<Rightarrow> string \<Rightarrow> bool" where
  "anyMatch m [] n = False"
| "anyMatch m (glob # globs) n = (if m glob n then True else anyMatch m globs n)"

definition walkFn :: "matcher \<Rightarrow> appEnv \<Rightarrow> string \<Rightarrow> bool \<Rightarrow> string \<Rightarrow> oserr option \<Rightarrow> verdict" where
  "walkFn m app path isDir n err =
     (if err \<noteq> None then WalkError
      else if isDir
      then (if path = ''.'' then RootDir
            else if anyMatch m (exDir app) n then ExcludeDir
            else if anyMatch m (incDir app) n then MatchDir
            else NoMatchDir)
      else if anyMatch m (exFile app) n then ExcludeFile
      else if anyMatch m (incFile app) n then MatchFile
      else NoMatchFile)"

text \<open>The verdicts that return \<^verbatim>\<open>filepath.SkipDir\<close>, and the one that appends the path.\<close>

fun skipDir :: "verdict \<Rightarrow> bool" where
  "skipDir ExcludeDir = True"
| "skipDir NoMatchDir = True"
| "skipDir v = False"

fun selected :: "(string \<times> verdict) list \<Rightarrow> string list" where
  "selected [] = []"
| "selected ((path, v) # rest) = (if v = MatchFile then path # selected rest else selected rest)"

text \<open>
  \<^verbatim>\<open>filepath.WalkDir\<close> (its recursive \<^verbatim>\<open>walkDir\<close>), for a callback that returns \<^verbatim>\<open>nil\<close> or
  \<^verbatim>\<open>SkipDir\<close>, and \<^verbatim>\<open>SkipDir\<close> for directories only: the calls of the callback in order,
  each with its path and verdict. The callback is called on the entry; on a directory it
  did not skip, \<^verbatim>\<open>ReadDir\<close> is read, its error reported by a second call, and the entries
  walked. The entries of \<^verbatim>\<open>ReadDir\<close> are not stat-ed; the callback sees a \<open>NoStat\<close> entry
  with the error, as it does at the root, where \<^verbatim>\<open>WalkDir\<close> calls \<^verbatim>\<open>Lstat\<close>.
\<close>

fun WalkDir :: "(string \<Rightarrow> bool \<Rightarrow> string \<Rightarrow> oserr option \<Rightarrow> verdict) \<Rightarrow> string \<Rightarrow> entry
    \<Rightarrow> (string \<times> verdict) list" where
  "WalkDir fn path (File n) = [(path, fn path False n None)]"
| "WalkDir fn path (NoStat n err) = [(path, fn path False n (Some err))]"
| "WalkDir fn path (Dir n entries rderr) =
     (path, fn path True n None) #
     (if skipDir (fn path True n None) then []
      else (case rderr of
              None \<Rightarrow> concat (map (\<lambda>d1. WalkDir fn (Join path (name d1)) d1) entries)
            | Some err \<Rightarrow>
                (path, fn path True n (Some err)) #
                (if skipDir (fn path True n (Some err)) then []
                 else concat (map (\<lambda>d1. WalkDir fn (Join path (name d1)) d1) entries))))"

text \<open>
  \<^verbatim>\<open>filepath.Walk\<close> (its recursive \<^verbatim>\<open>walk\<close>), which the other variant of the file uses: on
  a directory the callback is called once, with the error of reading the directory, and
  the entries are walked when there was no error and the callback returned \<^verbatim>\<open>nil\<close>.
\<close>

fun Walk :: "(string \<Rightarrow> bool \<Rightarrow> string \<Rightarrow> oserr option \<Rightarrow> verdict) \<Rightarrow> string \<Rightarrow> entry
    \<Rightarrow> (string \<times> verdict) list" where
  "Walk fn path (File n) = [(path, fn path False n None)]"
| "Walk fn path (NoStat n err) = [(path, fn path False n (Some err))]"
| "Walk fn path (Dir n entries rderr) =
     (path, fn path True n rderr) #
     (if rderr \<noteq> None \<or> skipDir (fn path True n rderr) then []
      else concat (map (\<lambda>e. Walk fn (Join path (name e)) e) entries))"

text \<open>
  \<^verbatim>\<open>walkDir\<close>: the walk from \<^verbatim>\<open>app.dir\<close> over the tree found there, and the paths
  appended on the way. \<open>walkDir\<close> is the method of \<^verbatim>\<open>replaceall.go\<close>, \<open>walkDir_Walk\<close> the one
  of the variant that calls \<^verbatim>\<open>filepath.Walk\<close>.
\<close>

definition walkDir :: "matcher \<Rightarrow> appEnv \<Rightarrow> entry \<Rightarrow> world \<Rightarrow> string list \<times> world" where
  "walkDir m app tree w =
     (selected (WalkDir (walkFn m app) (dir app) tree), called (WalkCall (dir app)) w)"

definition walkDir_Walk :: "matcher \<Rightarrow> appEnv \<Rightarrow> entry \<Rightarrow> world \<Rightarrow> string list \<times> world" where
  "walkDir_Walk m app tree w =
     (selected (Walk (walkFn m app) (dir app) tree), called (WalkCall (dir app)) w)"

text \<open>\<^verbatim>\<open>Exec\<close>: its loop over the paths, and the method, for both variants.\<close>

fun processFiles :: "appEnv \<Rightarrow> replacer \<Rightarrow> string list \<Rightarrow> world \<Rightarrow> error option \<times> world" where
  "processFiles app replacer [] w = (None, w)"
| "processFiles app replacer (path # paths) w =
     (case processFile app path replacer w of
        (Some err, w') \<Rightarrow> (Some err, w')
      | (None, w') \<Rightarrow> processFiles app replacer paths w')"

fun processFiles_Stat :: "appEnv \<Rightarrow> replacer \<Rightarrow> string list \<Rightarrow> world \<Rightarrow> error option \<times> world" where
  "processFiles_Stat app replacer [] w = (None, w)"
| "processFiles_Stat app replacer (path # paths) w =
     (case processFile_Stat app path replacer w of
        (Some err, w') \<Rightarrow> (Some err, w')
      | (None, w') \<Rightarrow> processFiles_Stat app replacer paths w')"

definition Exec :: "csvreader \<Rightarrow> matcher \<Rightarrow> appEnv \<Rightarrow> entry \<Rightarrow> world \<Rightarrow> error option \<times> world" where
  "Exec csv m app tree w =
     (case loadSubstitutions csv app w of
        (Inl err, w1) \<Rightarrow> (Some err, w1)
      | (Inr replacer, w1) \<Rightarrow>
          (case walkDir m app tree w1 of
             (paths, w2) \<Rightarrow> processFiles app replacer paths w2))"

definition Exec_Stat :: "csvreader \<Rightarrow> matcher \<Rightarrow> appEnv \<Rightarrow> entry \<Rightarrow> world \<Rightarrow> error option \<times> world" where
  "Exec_Stat csv m app tree w =
     (case loadSubstitutions csv app w of
        (Inl err, w1) \<Rightarrow> (Some err, w1)
      | (Inr replacer, w1) \<Rightarrow>
          (case walkDir_Walk m app tree w1 of
             (paths, w2) \<Rightarrow> processFiles_Stat app replacer paths w2))"

subsection \<open>\<^verbatim>\<open>ParseArgs\<close>\<close>

text \<open>
  A call either returns a value, returns with an error, or ends the process
  (\<^verbatim>\<open>os.Exit(0)\<close> after \<^verbatim>\<open>-version\<close>).
\<close>

datatype 'a outcome = Returned 'a | Failed error | Exited

text \<open>\<^verbatim>\<open>strconv.ParseBool\<close>.\<close>

definition ParseBool :: "string \<Rightarrow> bool option" where
  "ParseBool str =
     (if List.member [''1'', ''t'', ''T'', ''TRUE'', ''true'', ''True''] str then Some True
      else if List.member [''0'', ''f'', ''F'', ''FALSE'', ''false'', ''False''] str then Some False
      else None)"

text \<open>
  The flags that \<^verbatim>\<open>ParseArgs\<close> defines, and what setting each one does
  (\<^verbatim>\<open>flag.Value.Set\<close>): \<^verbatim>\<open>StringVar\<close> and \<^verbatim>\<open>BoolVar\<close> store into their field; the four
  \<^verbatim>\<open>fl.Func\<close> handlers run the function literals of the source, all of which assign to
  \<^verbatim>\<open>app.incFile\<close>; \<^verbatim>\<open>-verbose\<close> switches the log on; \<^verbatim>\<open>-v\<close> and \<^verbatim>\<open>-version\<close>, added by
  \<^verbatim>\<open>versioninfo.AddFlag\<close>, print the version and exit.
\<close>

definition isBoolFlag :: "string \<Rightarrow> bool" where
  "isBoolFlag flagName = List.member [''dry-run'', ''verbose'', ''v'', ''version''] flagName"

definition formal :: "string \<Rightarrow> bool" where
  "formal flagName =
     List.member [''pat'', ''dir'', ''dry-run'', ''match'', ''exclude'', ''match-dir'',
                  ''exclude-dir'', ''verbose'', ''v'', ''version''] flagName"

definition setFlag :: "string \<Rightarrow> string \<Rightarrow> appEnv \<Rightarrow> appEnv outcome" where
  "setFlag flagName val app =
     (if flagName = ''pat'' then Returned (app\<lparr>patFile := val\<rparr>)
      else if flagName = ''dir'' then Returned (app\<lparr>dir := val\<rparr>)
      else if flagName = ''dry-run''
      then (case ParseBool val of
              None \<Rightarrow> Failed (ErrInvalidValue flagName val)
            | Some b \<Rightarrow> Returned (app\<lparr>dryRun := b\<rparr>))
      else if flagName = ''match'' then Returned (app\<lparr>incFile := incFile app @ [val]\<rparr>)
      else if flagName = ''exclude'' then Returned (app\<lparr>incFile := exFile app @ [val]\<rparr>)
      else if flagName = ''match-dir'' then Returned (app\<lparr>incFile := incFile app @ [val]\<rparr>)
      else if flagName = ''exclude-dir'' then Returned (app\<lparr>incFile := exFile app @ [val]\<rparr>)
      else if flagName = ''verbose''
      then (case ParseBool val of
              None \<Rightarrow> Failed (ErrInvalidValue flagName val)
            | Some b \<Rightarrow> Returned (if b then app\<lparr>verbose := True\<rparr> else app))
      else (case ParseBool val of
              None \<Rightarrow> Failed (ErrInvalidValue flagName val)
            | Some b \<Rightarrow> if b then Exited else Returned app))"

text \<open>
  The state of the \<^verbatim>\<open>flag.FlagSet\<close> while parsing: the environment the flags store into
  and the names of the flags set so far (\<^verbatim>\<open>f.actual\<close>).
\<close>

record flagSet =
  env :: appEnv
  actual :: "string list"

definition setActual :: "string \<Rightarrow> string \<Rightarrow> flagSet \<Rightarrow> flagSet outcome" where
  "setActual flagName val fl =
     (case setFlag flagName val (env fl) of
        Returned app \<Rightarrow> Returned \<lparr>env = app, actual = actual fl @ [flagName]\<rparr>
      | Failed err \<Rightarrow> Failed err
      | Exited \<Rightarrow> Exited)"

text \<open>\<^verbatim>\<open>name=value\<close>: the first equals sign, which cannot be the first character.\<close>

fun cutEq :: "string \<Rightarrow> (string \<times> string) option" where
  "cutEq [] = None"
| "cutEq (c # cs) =
     (if c = CHR ''='' then Some ([], cs)
      else map_option (\<lambda>(before, after). (c # before, after)) (cutEq cs))"

definition splitValue :: "string \<Rightarrow> string \<times> string option" where
  "splitValue flagName =
     (case flagName of
        [] \<Rightarrow> ([], None)
      | c # cs \<Rightarrow> (case cutEq cs of
                    None \<Rightarrow> (flagName, None)
                  | Some (before, after) \<Rightarrow> (c # before, Some after)))"

text \<open>
  \<^verbatim>\<open>FlagSet.parseOne\<close>: whether a flag was seen (and then the new state and the remaining
  arguments), or the error. An argument that is not a flag, or \<^verbatim>\<open>--\<close>, ends the flags.
\<close>

datatype parsed = Seen flagSet "string list" | NotSeen | ParseError error | ParseExit

fun sawFlag :: "flagSet outcome \<Rightarrow> string list \<Rightarrow> parsed" where
  "sawFlag (Returned fl) args = Seen fl args"
| "sawFlag (Failed err) args = ParseError err"
| "sawFlag Exited args = ParseExit"

definition parseOne :: "string list \<Rightarrow> flagSet \<Rightarrow> parsed" where
  "parseOne args0 fl =
     (case args0 of
        [] \<Rightarrow> NotSeen
      | s # args \<Rightarrow>
          if length s < 2 \<or> hd s \<noteq> CHR ''-'' then NotSeen
          else if s = ''--'' then NotSeen
          else (let flagName = (if s ! 1 = CHR ''-'' then drop 2 s else drop 1 s) in
            if flagName = [] \<or> hd flagName = CHR ''-'' \<or> hd flagName = CHR ''=''
            then ParseError (ErrBadFlagSyntax s)
            else (case splitValue flagName of (flagName, val) \<Rightarrow>
              if \<not> formal flagName
              then (if flagName = ''help'' \<or> flagName = ''h'' then ParseError ErrHelp
                    else ParseError (ErrNotDefined flagName))
              else if isBoolFlag flagName
              then sawFlag (setActual flagName (case val of None \<Rightarrow> ''true'' | Some v \<Rightarrow> v) fl) args
              else (case val of
                      Some v \<Rightarrow> sawFlag (setActual flagName v fl) args
                    | None \<Rightarrow>
                        (case args of
                           [] \<Rightarrow> ParseError (ErrNeedsArgument flagName)
                         | v # args' \<Rightarrow> sawFlag (setActual flagName v fl) args')))))"

lemma seen_shorter: "sawFlag r args = Seen fl' args' \<Longrightarrow> args' = args"
  by (cases r) auto

lemma parseOne_shorter: "parseOne args fl = Seen fl' args' \<Longrightarrow> length args' < length args"
  by (auto simp: parseOne_def Let_def split: list.splits if_splits prod.splits option.splits
      dest: seen_shorter)

text \<open>\<^verbatim>\<open>FlagSet.Parse\<close> with \<^verbatim>\<open>flag.ContinueOnError\<close>: \<^verbatim>\<open>parseOne\<close> as long as it sees a flag.\<close>

function Parse :: "string list \<Rightarrow> flagSet \<Rightarrow> flagSet outcome" where
  "Parse args fl =
     (case parseOne args fl of
        Seen fl' args' \<Rightarrow> Parse args' fl'
      | NotSeen \<Rightarrow> Returned fl
      | ParseError err \<Rightarrow> Failed err
      | ParseExit \<Rightarrow> Exited)"
  by pat_completeness auto
termination
  by (relation "measure (\<lambda>(args, fl). length args)") (auto dest: parseOne_shorter)

declare Parse.simps [simp del]

text \<open>
  \<^verbatim>\<open>flagx.ParseEnv\<close>: every flag that the command line did not set, in the order of
  \<^verbatim>\<open>VisitAll\<close> (by name), is set from its environment variable when there is one.
  \<open>getenv\<close> gives the value of the variable for a flag's name.
\<close>

fun ParseEnvFlags :: "(string \<Rightarrow> string option) \<Rightarrow> string list \<Rightarrow> string list \<Rightarrow> flagSet
    \<Rightarrow> flagSet outcome" where
  "ParseEnvFlags getenv seen [] fl = Returned fl"
| "ParseEnvFlags getenv seen (flagName # rest) fl =
     (if List.member seen flagName then ParseEnvFlags getenv seen rest fl
      else (case getenv flagName of
              None \<Rightarrow> ParseEnvFlags getenv seen rest fl
            | Some val \<Rightarrow>
                (case setActual flagName val fl of
                   Returned fl' \<Rightarrow> ParseEnvFlags getenv seen rest fl'
                 | Failed err \<Rightarrow> Failed err
                 | Exited \<Rightarrow> Exited)))"

definition ParseEnv :: "(string \<Rightarrow> string option) \<Rightarrow> flagSet \<Rightarrow> flagSet outcome" where
  "ParseEnv getenv fl =
     ParseEnvFlags getenv (actual fl)
       [''dir'', ''dry-run'', ''exclude'', ''exclude-dir'', ''match'', ''match-dir'', ''pat'',
        ''v'', ''verbose'', ''version''] fl"

text \<open>The four defaults at the end of \<^verbatim>\<open>ParseArgs\<close>.\<close>

definition defaults :: "appEnv \<Rightarrow> appEnv" where
  "defaults app =
     app\<lparr>incFile := (if length (incFile app) = 0 then [''*''] else incFile app),
         exFile := (if length (exFile app) = 0 then [''.*''] else exFile app),
         incDir := (if length (incDir app) = 0 then [''*''] else incDir app),
         exDir := (if length (exDir app) = 0 then [''.*''] else exDir app)\<rparr>"

text \<open>
  \<^verbatim>\<open>ParseArgs\<close>: the flag definitions store the defaults of \<^verbatim>\<open>-pat\<close>, \<^verbatim>\<open>-dir\<close> and
  \<^verbatim>\<open>-dry-run\<close>; then the command line, the environment, \<^verbatim>\<open>flagx.MustHave(fl, "pat")\<close> and
  the defaults of the glob lists.
\<close>

definition ParseArgs :: "(string \<Rightarrow> string option) \<Rightarrow> appEnv \<Rightarrow> string list \<Rightarrow> appEnv outcome" where
  "ParseArgs getenv app args =
     (case Parse args \<lparr>env = app\<lparr>patFile := [], dir := ''.'', dryRun := False, verbose := False\<rparr>,
                       actual = []\<rparr> of
        Failed err \<Rightarrow> Failed err
      | Exited \<Rightarrow> Exited
      | Returned fl \<Rightarrow>
          (case ParseEnv getenv fl of
             Failed err \<Rightarrow> Failed err
           | Exited \<Rightarrow> Exited
           | Returned fl' \<Rightarrow>
               if \<not> List.member (actual fl') ''pat'' then Failed (ErrMissingFlag ''pat'')
               else Returned (defaults (env fl'))))"

text \<open>\<^verbatim>\<open>var app appEnv\<close> in \<^verbatim>\<open>CLI\<close>: the zero value, on which \<^verbatim>\<open>CLI\<close> calls \<^verbatim>\<open>ParseArgs\<close>.\<close>

definition zeroAppEnv :: appEnv where
  "zeroAppEnv =
     \<lparr>patFile = [], dir = [], incFile = [], exFile = [], incDir = [], exDir = [],
      dryRun = False, verbose = False\<rparr>"

subsection \<open>Pattern files and worlds for the statements\<close>

text \<open>
  The records of a pair list, one record \<^verbatim>\<open>old,new\<close> for each pair, and the flat argument
  list that \<^verbatim>\<open>loadSubstitutions\<close> makes of them.
\<close>

definition pairRecords :: "(string \<times> string) list \<Rightarrow> string list list" where
  "pairRecords ps = map (\<lambda>(old, new). [old, new]) ps"

fun flatten :: "(string \<times> string) list \<Rightarrow> string list" where
  "flatten [] = []"
| "flatten ((old, new) # ps) = old # new # flatten ps"

text \<open>
  \<open>holdsPairs csv app w ps\<close>: in the world \<open>w\<close> the pattern file of \<open>app\<close> can be read and
  the CSV reader finds in it the records of the pair list \<open>ps\<close>.
\<close>

definition holdsPairs :: "csvreader \<Rightarrow> appEnv \<Rightarrow> world \<Rightarrow> (string \<times> string) list \<Rightarrow> bool" where
  "holdsPairs csv app w ps =
     (case readContent w (patFile app) of
        Inl err \<Rightarrow> False
      | Inr data \<Rightarrow> csv data = Inr (pairRecords ps))"

text \<open>The longest new string of a pair list.\<close>

fun maxNew :: "(string \<times> string) list \<Rightarrow> nat" where
  "maxNew [] = 0"
| "maxNew ((old, new) # ps) = max (length new) (maxNew ps)"

text \<open>
  A CSV reader for data without quotes and carriage returns, where the records are the
  non-empty lines and the fields are separated by commas; and a world with the given
  files (path and content, mode \<^verbatim>\<open>0o644\<close>), without faults, in which nothing has been
  printed or called. They instantiate the statements on concrete runs.
\<close>

fun splitOn :: "char \<Rightarrow> string \<Rightarrow> string list" where
  "splitOn sep [] = [[]]"
| "splitOn sep (c # cs) =
     (if c = sep then [] # splitOn sep cs
      else (case splitOn sep cs of
              [] \<Rightarrow> [[c]]
            | fld # flds \<Rightarrow> (c # fld) # flds))"

definition csvPlain :: csvreader where
  "csvPlain data =
     Inr (map (splitOn CHR '','') (filter (\<lambda>line. line \<noteq> []) (splitOn CHR 0x0A data)))"

fun filesOf :: "(string \<times> string) list \<Rightarrow> string \<Rightarrow> osfile option" where
  "filesOf [] = (\<lambda>path. None)"
| "filesOf ((path, data) # rest) = (filesOf rest)(path \<mapsto> \<lparr>content = data, mode = 420\<rparr>)"

definition worldOf :: "(string \<times> string) list \<Rightarrow> world" where
  "worldOf fs =
     \<lparr>files = filesOf fs, readFault = (\<lambda>path. None), statFault = (\<lambda>path. None),
      writeFault = (\<lambda>path. None), stdout = [], calls = []\<rparr>"

text \<open>Applying the replacer that \<^verbatim>\<open>loadSubstitutions\<close> returned, when it returned one.\<close>

definition replaceWith :: "error + replacer \<Rightarrow> string \<Rightarrow> error + string" where
  "replaceWith loaded s = (case loaded of Inl err \<Rightarrow> Inl err | Inr r \<Rightarrow> Inr (Replace r s))"

section \<open>Properties\<close>

text \<open>The definitions that evaluate a concrete run.\<close>

lemmas eval_load = holdsPairs_def readContent_def worldOf_def csvPlain_def pairRecords_def
  loadSubstitutions_def Open_def ReadAll_def NewReplacer_def build_def zeroAppEnv_def
  replaceWith_def called_def

lemmas eval_walk = walkDir_def walkDir_Walk_def walkFn_def Join_def Match.simps matchClass_def
  classRanges.simps

lemmas eval_process = processFile_def processFile_Stat_def ReadFile_def Stat_def WriteFile_def
  Let_def

subsection \<open>The glob lists after \<^verbatim>\<open>ParseArgs\<close>\<close>

lemma setFlag_keeps:
  "setFlag flagName val app = Returned app' \<Longrightarrow>
   exFile app' = exFile app \<and> incDir app' = incDir app \<and> exDir app' = exDir app"
  by (auto simp: setFlag_def split: if_splits option.splits)

lemma setActual_keeps:
  "setActual flagName val fl = Returned fl' \<Longrightarrow>
   exFile (env fl') = exFile (env fl) \<and> incDir (env fl') = incDir (env fl)
   \<and> exDir (env fl') = exDir (env fl)"
  by (auto simp: setActual_def split: outcome.splits dest: setFlag_keeps)

lemma sawFlag_keeps:
  "sawFlag (setActual flagName val fl) args = Seen fl' args' \<Longrightarrow>
   exFile (env fl') = exFile (env fl) \<and> incDir (env fl') = incDir (env fl)
   \<and> exDir (env fl') = exDir (env fl)"
  by (cases "setActual flagName val fl") (auto dest: setActual_keeps)

lemma parseOne_keeps:
  "parseOne args fl = Seen fl' args' \<Longrightarrow>
   exFile (env fl') = exFile (env fl) \<and> incDir (env fl') = incDir (env fl)
   \<and> exDir (env fl') = exDir (env fl)"
  unfolding parseOne_def Let_def
  by (auto split: list.splits if_splits prod.splits option.splits dest!: sawFlag_keeps)

lemma Parse_keeps:
  "Parse args fl = Returned fl' \<Longrightarrow>
   exFile (env fl') = exFile (env fl) \<and> incDir (env fl') = incDir (env fl)
   \<and> exDir (env fl') = exDir (env fl)"
proof (induction args fl rule: Parse.induct)
  case (1 args fl)
  show ?case
  proof (cases "parseOne args fl")
    case (Seen fl1 args1)
    with "1.prems" have "Parse args1 fl1 = Returned fl'"
      by (subst (asm) Parse.simps) simp
    from "1.IH" [OF Seen this] parseOne_keeps [OF Seen] show ?thesis by simp
  next
    case NotSeen
    with "1.prems" show ?thesis by (subst (asm) Parse.simps) simp
  next
    case (ParseError err)
    with "1.prems" show ?thesis by (subst (asm) Parse.simps) simp
  next
    case ParseExit
    with "1.prems" show ?thesis by (subst (asm) Parse.simps) simp
  qed
qed

lemma ParseEnvFlags_keeps:
  "ParseEnvFlags getenv sn names fl = Returned fl' \<Longrightarrow>
   exFile (env fl') = exFile (env fl) \<and> incDir (env fl') = incDir (env fl)
   \<and> exDir (env fl') = exDir (env fl)"
proof (induction names arbitrary: fl)
  case Nil
  then show ?case by simp
next
  case (Cons n names)
  show ?case
  proof (cases "List.member sn n \<or> getenv n = None")
    case True
    with Cons.prems have "ParseEnvFlags getenv sn names fl = Returned fl'"
      by (auto split: if_splits)
    from Cons.IH [OF this] show ?thesis .
  next
    case False
    then obtain val where val: "getenv n = Some val" by auto
    with False Cons.prems obtain fl1 where
      fl1: "setActual n val fl = Returned fl1" "ParseEnvFlags getenv sn names fl1 = Returned fl'"
      by (cases "setActual n val fl") auto
    from Cons.IH [OF fl1(2)] setActual_keeps [OF fl1(1)] show ?thesis by simp
  qed
qed

text \<open>
  Claim C10. After every successful \<^verbatim>\<open>ParseArgs\<close> call that \<^verbatim>\<open>CLI\<close> makes, whatever the
  arguments and the environment, \<^verbatim>\<open>exFile\<close>, \<^verbatim>\<open>incDir\<close> and \<^verbatim>\<open>exDir\<close> are their defaults
  \<^verbatim>\<open>[".*"]\<close>, \<^verbatim>\<open>["*"]\<close> and \<^verbatim>\<open>[".*"]\<close>: the handlers of \<^verbatim>\<open>-exclude\<close>, \<^verbatim>\<open>-match-dir\<close> and
  \<^verbatim>\<open>-exclude-dir\<close> assign to \<^verbatim>\<open>incFile\<close>, so no glob of the user reaches these lists.
\<close>

theorem ParseArgs_exclude_and_dir_globs_stay_default:
  assumes "ParseArgs getenv zeroAppEnv args = Returned app"
  shows "exFile app = [''.*''] \<and> incDir app = [''*''] \<and> exDir app = [''.*'']"
proof -
  let ?fl0 = "\<lparr>env = zeroAppEnv\<lparr>patFile := [], dir := ''.'', dryRun := False, verbose := False\<rparr>,
               actual = []\<rparr>"
  from assms obtain fl1 where fl1: "Parse args ?fl0 = Returned fl1"
    by (cases "Parse args ?fl0") (auto simp: ParseArgs_def)
  with assms obtain fl2 where fl2: "ParseEnv getenv fl1 = Returned fl2"
    by (cases "ParseEnv getenv fl1") (auto simp: ParseArgs_def)
  with assms fl1 have app: "app = defaults (env fl2)"
    by (auto simp: ParseArgs_def split: if_splits)
  from Parse_keeps [OF fl1] ParseEnvFlags_keeps [OF fl2 [unfolded ParseEnv_def]]
  have "exFile (env fl2) = [] \<and> incDir (env fl2) = [] \<and> exDir (env fl2) = []"
    by (simp add: zeroAppEnv_def)
  with app show ?thesis by (simp add: defaults_def)
qed

text \<open>
  A run with all three flags: the globs of \<^verbatim>\<open>-exclude\<close> and \<^verbatim>\<open>-exclude-dir\<close> end up in
  \<^verbatim>\<open>incFile\<close>, the last one overwriting the others.
\<close>

theorem ParseArgs_exclude_and_dir_globs_stay_default_witness:
  "ParseArgs (\<lambda>v. None) zeroAppEnv
     [''-pat'', ''subs.csv'', ''-exclude'', ''*.bak'', ''-match-dir'', ''src'', ''-exclude-dir'', ''tmp'']
   = Returned \<lparr>patFile = ''subs.csv'', dir = ''.'', incFile = [''tmp''], exFile = [''.*''],
        incDir = [''*''], exDir = [''.*''], dryRun = False, verbose = False\<rparr>"
  using ParseArgs_exclude_and_dir_globs_stay_default
    [of "\<lambda>v. None" "[''-pat'', ''subs.csv'', ''-exclude'', ''*.bak'', ''-match-dir'', ''src'', ''-exclude-dir'', ''tmp'']"]
  by (simp add: ParseArgs_def Parse.simps parseOne_def splitValue_def formal_def isBoolFlag_def
      setActual_def setFlag_def ParseEnv_def defaults_def zeroAppEnv_def)

subsection \<open>The four replacers agree with the generic scan\<close>

lemma pairs_flatten: "pairs (flatten ps) = ps"
  by (induction ps) auto

lemma length_flatten: "length (flatten ps) = 2 * length ps"
  by (induction ps) auto

lemma gen_single_skip:
  "pat \<noteq> [] \<Longrightarrow> \<not> HasPrefix (c # cs) pat \<Longrightarrow>
   genericReplace [(pat, val)] (c # cs) b = c # genericReplace [(pat, val)] cs False"
  by (subst genericReplace.simps) simp

lemma gen_single_hit:
  "pat \<noteq> [] \<Longrightarrow> HasPrefix s pat \<Longrightarrow>
   genericReplace [(pat, val)] s b = val @ genericReplace [(pat, val)] (drop (length pat) s) False"
  by (subst genericReplace.simps) simp

lemma gen_single_none:
  "pat \<noteq> [] \<Longrightarrow> finder_next pat s = None \<Longrightarrow> genericReplace [(pat, val)] s b = s"
proof (induction s arbitrary: b)
  case Nil
  then show ?case by (subst genericReplace.simps) (simp add: HasPrefix_def)
next
  case (Cons c cs)
  then show ?case by (simp add: gen_single_skip split: if_splits)
qed

lemma gen_single_some:
  "pat \<noteq> [] \<Longrightarrow> finder_next pat s = Some m \<Longrightarrow>
   genericReplace [(pat, val)] s b =
     take m s @ val @ genericReplace [(pat, val)] (drop (m + length pat) s) False"
proof (induction s arbitrary: m b)
  case Nil
  then show ?case by simp
next
  case (Cons c cs)
  show ?case
  proof (cases "HasPrefix (c # cs) pat")
    case True
    with Cons.prems have "m = 0" by simp
    with True Cons.prems(1) show ?thesis by (simp add: gen_single_hit)
  next
    case False
    with Cons.prems obtain k where k: "finder_next pat cs = Some k" "m = Suc k" by auto
    from Cons.IH [OF Cons.prems(1) k(1)] False Cons.prems(1) k(2) show ?thesis
      by (simp add: gen_single_skip)
  qed
qed

lemma singleReplace_generic:
  "pat \<noteq> [] \<Longrightarrow> singleReplace pat val s = genericReplace [(pat, val)] s False"
proof (induction pat val s rule: singleReplace.induct)
  case (1 pattern val s)
  show ?case
  proof (cases "finder_next pattern s")
    case None
    with 1 show ?thesis
      by (subst singleReplace.simps) (simp add: gen_single_none)
  next
    case (Some m)
    with 1 show ?thesis
      by (subst singleReplace.simps) (simp add: gen_single_some)
  qed
qed

lemma lookup_bytes_Nil:
  "\<not> list_ex (\<lambda>(old, new). length old \<noteq> 1) ps \<Longrightarrow> lookup ps [] b = None"
  by (induction ps) (auto simp: HasPrefix_def)

lemma lookup_bytes_Cons:
  "\<not> list_ex (\<lambda>(old, new). length old \<noteq> 1) ps \<Longrightarrow>
   lookup ps (c # cs) b =
     map_option (\<lambda>new. (new, 1)) (byteStringTable ps c)"
proof (induction ps)
  case Nil
  then show ?case by simp
next
  case (Cons p ps)
  obtain old new where p: "p = (old, new)" by (cases p)
  with Cons.prems obtain x where x: "old = [x]" by (cases old) auto
  from Cons p x show ?case by (auto simp: HasPrefix_def)
qed

lemma gen_bytes:
  "\<not> list_ex (\<lambda>(old, new). length old \<noteq> 1) ps \<Longrightarrow>
   genericReplace ps s b =
     concat (map (\<lambda>c. case byteStringTable ps c of
                         None \<Rightarrow> [c] | Some new \<Rightarrow> new) s)"
proof (induction s arbitrary: b)
  case Nil
  then show ?case by (subst genericReplace.simps) (simp add: lookup_bytes_Nil)
next
  case (Cons c cs)
  then show ?case
    by (subst genericReplace.simps) (simp add: lookup_bytes_Cons split: option.splits)
qed

lemma byte_table:
  "list_all (\<lambda>(old, new). length new = 1) ps \<Longrightarrow>
   (case byteStringTable ps c of
      None \<Rightarrow> [c] | Some new \<Rightarrow> new) =
   [byteTable ps c]"
proof (induction ps)
  case Nil
  then show ?case by simp
next
  case (Cons p ps)
  obtain old new where p: "p = (old, new)" by (cases p)
  with Cons.prems obtain x where x: "new = [x]" by (cases new) auto
  from Cons p x show ?case by auto
qed

lemma map_as_concat: "map f s = concat (map (\<lambda>c. [f c]) s)"
  by (induction s) auto

lemma build_single:
  "length oldnew = 2 \<Longrightarrow> 1 < length (oldnew ! 0) \<Longrightarrow>
   build oldnew = SingleString (oldnew ! 0) (oldnew ! 1)"
  by (simp add: build_def)

lemma build_generic:
  "\<not> (length oldnew = 2 \<and> 1 < length (oldnew ! 0)) \<Longrightarrow>
   list_ex (\<lambda>(old, new). length old \<noteq> 1) (pairs oldnew) \<Longrightarrow>
   build oldnew = Generic (pairs oldnew)"
  unfolding build_def by (simp only: if_False if_True)

lemma build_bytes:
  "\<not> (length oldnew = 2 \<and> 1 < length (oldnew ! 0)) \<Longrightarrow>
   \<not> list_ex (\<lambda>(old, new). length old \<noteq> 1) (pairs oldnew) \<Longrightarrow>
   list_all (\<lambda>(old, new). length new = 1) (pairs oldnew) \<Longrightarrow>
   build oldnew = ByteRep (byteTable (pairs oldnew))"
  unfolding build_def by (simp only: if_False if_True)

lemma build_byteString:
  "\<not> (length oldnew = 2 \<and> 1 < length (oldnew ! 0)) \<Longrightarrow>
   \<not> list_ex (\<lambda>(old, new). length old \<noteq> 1) (pairs oldnew) \<Longrightarrow>
   \<not> list_all (\<lambda>(old, new). length new = 1) (pairs oldnew) \<Longrightarrow>
   build oldnew = ByteStringRep (byteStringTable (pairs oldnew))"
  unfolding build_def by (simp only: if_False if_True)

lemma Replace_build:
  "Replace (build (flatten ps)) s = genericReplace ps s False"
proof (cases "length (flatten ps) = 2 \<and> 1 < length (flatten ps ! 0)")
  case True
  then obtain old new where ps: "ps = [(old, new)]"
    by (cases ps; cases "tl ps") (auto simp: length_flatten)
  with True have "old \<noteq> []" by auto
  with True ps show ?thesis by (simp add: build_single singleReplace_generic)
next
  case False
  note nosingle = this
  show ?thesis
  proof (cases "list_ex (\<lambda>(old, new). length old \<noteq> 1) ps")
    case True
    then have "build (flatten ps) = Generic ps"
      using build_generic [OF nosingle] by (simp add: pairs_flatten)
    then show ?thesis by simp
  next
    case False
    note bytes = this
    show ?thesis
    proof (cases "list_all (\<lambda>(old, new). length new = 1) ps")
      case True
      have b: "build (flatten ps) = ByteRep (byteTable ps)"
        using build_bytes [OF nosingle] bytes True by (simp add: pairs_flatten)
      have "genericReplace ps s False =
            concat (map (\<lambda>c. case byteStringTable ps c of None \<Rightarrow> [c] | Some new \<Rightarrow> new) s)"
        by (rule gen_bytes [OF bytes])
      also have "\<dots> = concat (map (\<lambda>c. [byteTable ps c]) s)"
        by (simp only: byte_table [OF True])
      also have "\<dots> = map (byteTable ps) s"
        by (rule map_as_concat [symmetric])
      finally show ?thesis by (simp add: b)
    next
      case False
      have b: "build (flatten ps) = ByteStringRep (byteStringTable ps)"
        using build_byteString [OF nosingle] bytes False by (simp add: pairs_flatten)
      show ?thesis by (simp add: b gen_bytes [OF bytes])
    qed
  qed
qed

lemma replacements_pairRecords: "replacements (pairRecords ps) = Some (flatten ps)"
  by (induction ps) (auto simp: pairRecords_def)

lemma list_all_pairRecords: "list_all (\<lambda>record. length record = 2) (pairRecords ps)"
  by (induction ps) (auto simp: pairRecords_def)

lemma loadSubstitutions_pairs:
  assumes "holdsPairs csv app w ps"
  shows "loadSubstitutions csv app w = (Inr (build (flatten ps)), called (OpenCall (patFile app)) w)"
proof -
  from assms obtain data where
    data: "readContent w (patFile app) = Inr data" "csv data = Inr (pairRecords ps)"
    by (auto simp: holdsPairs_def split: sum.splits)
  have "ReadAll csv 2 data = Inr (pairRecords ps)"
    using data(2) list_all_pairRecords [of ps] by (simp add: ReadAll_def)
  with data(1) show ?thesis
    by (simp add: loadSubstitutions_def Open_def replacements_pairRecords NewReplacer_def
        length_flatten)
qed

lemma lookup_find:
  "lookup ps s False =
     map_option (\<lambda>(old, new). (new, length old)) (find (\<lambda>(old, new). HasPrefix s old) ps)"
  by (induction ps) auto

lemma lookup_find_ignoreRoot:
  "lookup ps s True =
     map_option (\<lambda>(old, new). (new, length old))
       (find (\<lambda>(old, new). old \<noteq> [] \<and> HasPrefix s old) ps)"
proof (induction ps)
  case Nil
  show ?case by simp
next
  case (Cons p ps)
  obtain old new where p: "p = (old, new)" by (cases p)
  from Cons p show ?case by (cases "HasPrefix s old"; cases "old = []") simp_all
qed

lemma genericReplace_scan:
  "genericReplace ps s False =
     (case find (\<lambda>(old, new). HasPrefix s old) ps of
        None \<Rightarrow> (case s of [] \<Rightarrow> [] | c # cs \<Rightarrow> c # genericReplace ps cs False)
      | Some (old, new) \<Rightarrow>
          if old \<noteq> [] then new @ genericReplace ps (drop (length old) s) False
          else new @ (case find (\<lambda>(old, new). old \<noteq> [] \<and> HasPrefix s old) ps of
                        None \<Rightarrow> (case s of [] \<Rightarrow> [] | c # cs \<Rightarrow> c # genericReplace ps cs False)
                      | Some (old', new') \<Rightarrow> new' @ genericReplace ps (drop (length old') s) False))"
proof (cases "find (\<lambda>(old, new). HasPrefix s old) ps")
  case None
  then show ?thesis
    by (subst genericReplace.simps) (simp add: lookup_find)
next
  case (Some p)
  obtain old new where p: "p = (old, new)" by (cases p)
  show ?thesis
  proof (cases "old = []")
    case False
    with Some p show ?thesis
      by (subst genericReplace.simps) (simp add: lookup_find)
  next
    case True
    have second: "genericReplace ps s True =
        (case find (\<lambda>(old, new). old \<noteq> [] \<and> HasPrefix s old) ps of
           None \<Rightarrow> (case s of [] \<Rightarrow> [] | c # cs \<Rightarrow> c # genericReplace ps cs False)
         | Some (old', new') \<Rightarrow> new' @ genericReplace ps (drop (length old') s) False)"
    proof (cases "find (\<lambda>(old, new). old \<noteq> [] \<and> HasPrefix s old) ps")
      case None
      then show ?thesis by (subst genericReplace.simps) (simp add: lookup_find_ignoreRoot)
    next
      case (Some q)
      obtain old' new' where q: "q = (old', new')" by (cases q)
      from Some q have "old' \<noteq> []" by (auto dest: find_Some_iff [THEN iffD1])
      with Some q show ?thesis
        by (subst genericReplace.simps) (simp add: lookup_find_ignoreRoot)
    qed
    from Some p True have "genericReplace ps s False = new @ genericReplace ps s True"
      by (subst genericReplace.simps) (simp add: lookup_find)
    with Some p True second show ?thesis by simp
  qed
qed

subsection \<open>Which match the replacer takes\<close>

lemma holdsPairs_loaded:
  assumes "holdsPairs csv app w ps"
  shows "fst (loadSubstitutions csv app w) = Inr (build (flatten ps))"
  using loadSubstitutions_pairs [OF assms] by simp

text \<open>
  Claim C1, as the code has it. For every pair list and every text, the replacer that
  \<^verbatim>\<open>loadSubstitutions\<close> builds scans from left to right and, at each position where at
  least one old pattern matches, replaces the matching old pattern that is listed
  earliest (not the longest one) by its new string, and goes on after the bytes consumed;
  after an empty old pattern it takes the earliest non-empty match at the same position,
  if there is one. With no match the byte is copied. For the pairs \<^verbatim>\<open>("ab","X"), ("a","Y")\<close>
  in this order \<^verbatim>\<open>"ab"\<close> becomes \<^verbatim>\<open>"X"\<close>; in the other order it becomes \<^verbatim>\<open>"Yb"\<close>.
\<close>

theorem replacer_takes_earliest_listed_match:
  assumes "holdsPairs csv app w ps"
  shows "\<exists>r. fst (loadSubstitutions csv app w) = Inr r \<and>
    (\<forall>s. Replace r s =
       (case find (\<lambda>(old, new). HasPrefix s old) ps of
          None \<Rightarrow> (case s of [] \<Rightarrow> [] | c # cs \<Rightarrow> c # Replace r cs)
        | Some (old, new) \<Rightarrow>
            if old \<noteq> [] then new @ Replace r (drop (length old) s)
            else new @ (case find (\<lambda>(old, new). old \<noteq> [] \<and> HasPrefix s old) ps of
                          None \<Rightarrow> (case s of [] \<Rightarrow> [] | c # cs \<Rightarrow> c # Replace r cs)
                        | Some (old', new') \<Rightarrow> new' @ Replace r (drop (length old') s)))) \<and>
    (ps = [(''ab'', ''X''), (''a'', ''Y'')] \<longrightarrow> Replace r ''ab'' = ''X'') \<and>
    (ps = [(''a'', ''Y''), (''ab'', ''X'')] \<longrightarrow> Replace r ''ab'' = ''Yb'')"
proof (intro exI conjI allI impI)
  show "fst (loadSubstitutions csv app w) = Inr (build (flatten ps))"
    by (rule holdsPairs_loaded [OF assms])
next
  fix s
  show "Replace (build (flatten ps)) s =
       (case find (\<lambda>(old, new). HasPrefix s old) ps of
          None \<Rightarrow> (case s of [] \<Rightarrow> [] | c # cs \<Rightarrow> c # Replace (build (flatten ps)) cs)
        | Some (old, new) \<Rightarrow>
            if old \<noteq> [] then new @ Replace (build (flatten ps)) (drop (length old) s)
            else new @ (case find (\<lambda>(old, new). old \<noteq> [] \<and> HasPrefix s old) ps of
                          None \<Rightarrow> (case s of [] \<Rightarrow> [] | c # cs \<Rightarrow> c # Replace (build (flatten ps)) cs)
                        | Some (old', new') \<Rightarrow> new' @ Replace (build (flatten ps)) (drop (length old') s)))"
    unfolding Replace_build by (rule genericReplace_scan)
next
  assume "ps = [(''ab'', ''X''), (''a'', ''Y'')]"
  then show "Replace (build (flatten ps)) ''ab'' = ''X''"
    by (simp add: build_def genericReplace.simps HasPrefix_def)
next
  assume "ps = [(''a'', ''Y''), (''ab'', ''X'')]"
  then show "Replace (build (flatten ps)) ''ab'' = ''Yb''"
    by (simp add: build_def genericReplace.simps HasPrefix_def)
qed

text \<open>The pattern file \<^verbatim>\<open>ab,X\<close>, \<^verbatim>\<open>a,Y\<close>: the text \<^verbatim>\<open>ab\<close> becomes \<^verbatim>\<open>X\<close>.\<close>

theorem replacer_takes_earliest_listed_match_witness:
  "holdsPairs csvPlain (zeroAppEnv\<lparr>patFile := ''subs.csv''\<rparr>)
     (worldOf [(''subs.csv'', ''ab,X'' @ CHR 0x0A # ''a,Y'')]) [(''ab'', ''X''), (''a'', ''Y'')] \<and>
   replaceWith (fst (loadSubstitutions csvPlain (zeroAppEnv\<lparr>patFile := ''subs.csv''\<rparr>)
     (worldOf [(''subs.csv'', ''ab,X'' @ CHR 0x0A # ''a,Y'')]))) ''ab'' = Inr ''X''"
proof -
  have h: "holdsPairs csvPlain (zeroAppEnv\<lparr>patFile := ''subs.csv''\<rparr>)
     (worldOf [(''subs.csv'', ''ab,X'' @ CHR 0x0A # ''a,Y'')]) [(''ab'', ''X''), (''a'', ''Y'')]"
    by (simp add: eval_load)
  from replacer_takes_earliest_listed_match [OF h] h show ?thesis
    by (auto simp: replaceWith_def)
qed

text \<open>
  Claim C1 as stated fails: with the pattern file \<^verbatim>\<open>a,Y\<close>, \<^verbatim>\<open>ab,X\<close> both old patterns
  match at the start of \<^verbatim>\<open>ab\<close>, and the replacer takes the shorter one, listed first.
\<close>

theorem longest_match_counterexample:
  "fst (loadSubstitutions csvPlain (zeroAppEnv\<lparr>patFile := ''subs.csv''\<rparr>)
     (worldOf [(''subs.csv'', ''a,Y'' @ CHR 0x0A # ''ab,X'')]))
     = Inr (Generic [(''a'', ''Y''), (''ab'', ''X'')]) \<and>
   HasPrefix ''ab'' ''ab'' \<and> HasPrefix ''ab'' ''a'' \<and>
   Replace (Generic [(''a'', ''Y''), (''ab'', ''X'')]) ''ab'' = ''Yb''"
  by (simp add: eval_load genericReplace.simps HasPrefix_def)

subsection \<open>The substitution cycle\<close>

lemma processFile_writes:
  assumes "\<not> dryRun app" "readContent w path = Inr old" "writeFault w path = None"
  shows "map_option content (files (snd (processFile app path r w)) path) = Some (Replace r old)"
  using assms
  by (auto simp: processFile_def ReadFile_def WriteFile_def called_def Let_def readContent_def
      split: option.splits)

lemma processFile_Stat_writes:
  assumes "\<not> dryRun app" "readContent w path = Inr old" "statFault w path = None"
    "writeFault w path = None"
  shows "map_option content (files (snd (processFile_Stat app path r w)) path) = Some (Replace r old)"
  using assms
  by (auto simp: processFile_Stat_def ReadFile_def Stat_def WriteFile_def called_def Let_def
      readContent_def split: option.splits)

text \<open>
  Claim C2. The replacement is one simultaneous pass whose output is not scanned again:
  with the cycle \<^verbatim>\<open>a,b\<close>, \<^verbatim>\<open>b,c\<close>, \<^verbatim>\<open>c,a\<close> the replacer turns \<^verbatim>\<open>a\<close> into \<^verbatim>\<open>b\<close> and
  \<^verbatim>\<open>abcdef\<close> into \<^verbatim>\<open>bcadef\<close>; every byte of a text is replaced by its own mapping,
  whatever the other bytes are; and \<^verbatim>\<open>processFile\<close> (either variant, not a dry run) leaves
  a file that held \<^verbatim>\<open>abcdef\<close> with the content \<^verbatim>\<open>bcadef\<close>.
\<close>

theorem cycle_is_replaced_in_one_pass:
  assumes "holdsPairs csv app w [(''a'', ''b''), (''b'', ''c''), (''c'', ''a'')]"
    and "\<not> dryRun app"
    and "readContent w' path = Inr ''abcdef''"
    and "statFault w' path = None"
    and "writeFault w' path = None"
  shows "\<exists>r. fst (loadSubstitutions csv app w) = Inr r \<and>
    Replace r ''a'' = ''b'' \<and> Replace r ''abcdef'' = ''bcadef'' \<and>
    (\<forall>s. Replace r s =
       map (\<lambda>b. if b = CHR ''a'' then CHR ''b'' else if b = CHR ''b'' then CHR ''c''
                else if b = CHR ''c'' then CHR ''a'' else b) s) \<and>
    map_option content (files (snd (processFile app path r w')) path) = Some ''bcadef'' \<and>
    map_option content (files (snd (processFile_Stat app path r w')) path) = Some ''bcadef''"
proof -
  let ?r = "build (flatten [(''a'', ''b''), (''b'', ''c''), (''c'', ''a'')])"
  have r: "fst (loadSubstitutions csv app w) = Inr ?r"
    by (rule holdsPairs_loaded [OF assms(1)])
  have a: "Replace ?r ''a'' = ''b''" by (simp add: build_def)
  have abc: "Replace ?r ''abcdef'' = ''bcadef''" by (simp add: build_def)
  have each: "\<forall>s. Replace ?r s =
       map (\<lambda>b. if b = CHR ''a'' then CHR ''b'' else if b = CHR ''b'' then CHR ''c''
                else if b = CHR ''c'' then CHR ''a'' else b) s"
    by (simp add: build_def fun_upd_def)
  from processFile_writes [OF assms(2,3,5), of ?r]
    processFile_Stat_writes [OF assms(2,3,4,5), of ?r] r a abc each
  show ?thesis by (intro exI [of _ ?r]) (simp only: simp_thms)
qed

text \<open>
  The example of the usage message, as a whole run of \<^verbatim>\<open>Exec\<close> with \<^verbatim>\<open>-match '*.txt'\<close>.
\<close>

theorem cycle_is_replaced_in_one_pass_witness:
  "holdsPairs csvPlain
     (zeroAppEnv\<lparr>patFile := ''subs.csv'', dir := ''.'', incFile := [''*.txt''], exFile := [''.*''],
        incDir := [''*''], exDir := [''.*'']\<rparr>)
     (worldOf [(''subs.csv'', ''a,b'' @ CHR 0x0A # ''b,c'' @ CHR 0x0A # ''c,a''), (''in.txt'', ''abcdef'')])
     [(''a'', ''b''), (''b'', ''c''), (''c'', ''a'')] \<and>
   replaceWith (fst (loadSubstitutions csvPlain
     (zeroAppEnv\<lparr>patFile := ''subs.csv'', dir := ''.'', incFile := [''*.txt''], exFile := [''.*''],
        incDir := [''*''], exDir := [''.*'']\<rparr>)
     (worldOf [(''subs.csv'', ''a,b'' @ CHR 0x0A # ''b,c'' @ CHR 0x0A # ''c,a''), (''in.txt'', ''abcdef'')])))
     ''abcdef'' = Inr ''bcadef'' \<and>
   map_option content (files (snd (Exec csvPlain Match
     (zeroAppEnv\<lparr>patFile := ''subs.csv'', dir := ''.'', incFile := [''*.txt''], exFile := [''.*''],
        incDir := [''*''], exDir := [''.*'']\<rparr>)
     (Dir ''.'' [File ''in.txt'', File ''subs.csv''] None)
     (worldOf [(''subs.csv'', ''a,b'' @ CHR 0x0A # ''b,c'' @ CHR 0x0A # ''c,a''), (''in.txt'', ''abcdef'')])))
     ''in.txt'') = Some ''bcadef''"
proof -
  let ?app = "zeroAppEnv\<lparr>patFile := ''subs.csv'', dir := ''.'', incFile := [''*.txt''], exFile := [''.*''],
        incDir := [''*''], exDir := [''.*'']\<rparr>"
  let ?w = "worldOf [(''subs.csv'', ''a,b'' @ CHR 0x0A # ''b,c'' @ CHR 0x0A # ''c,a''), (''in.txt'', ''abcdef'')]"
  have h: "holdsPairs csvPlain ?app ?w [(''a'', ''b''), (''b'', ''c''), (''c'', ''a'')]"
    by (simp add: eval_load)
  have d: "\<not> dryRun ?app" by (simp add: zeroAppEnv_def)
  have rd: "readContent ?w ''in.txt'' = Inr ''abcdef''" by (simp add: readContent_def worldOf_def)
  have sf: "statFault ?w ''in.txt'' = None" and wf: "writeFault ?w ''in.txt'' = None"
    by (simp_all add: worldOf_def)
  have run: "map_option content (files (snd (Exec csvPlain Match ?app
     (Dir ''.'' [File ''in.txt'', File ''subs.csv''] None) ?w)) ''in.txt'') = Some ''bcadef''"
    by (simp add: Exec_def eval_load eval_walk eval_process)
  from cycle_is_replaced_in_one_pass [OF h d rd sf wf] h run show ?thesis
    by (auto simp: replaceWith_def)
qed

subsection \<open>Old patterns listed twice\<close>

lemma lookup_append:
  "lookup (ps @ qs) s b = (case lookup ps s b of Some r \<Rightarrow> Some r | None \<Rightarrow> lookup qs s b)"
  by (induction ps) auto

lemma lookup_None_no_match:
  "lookup ps s False = None \<Longrightarrow> old \<in> fst ` set ps \<Longrightarrow> \<not> HasPrefix s old"
  "lookup ps s True = None \<Longrightarrow> old \<in> fst ` set ps \<Longrightarrow> \<not> (HasPrefix s old \<and> old \<noteq> [])"
  by (induction ps) (force split: if_splits)+

lemma lookup_drop_later_duplicate:
  assumes "old \<in> fst ` set ps"
  shows "lookup (ps @ (old, new) # qs) s b = lookup (ps @ qs) s b"
proof (cases "lookup ps s b")
  case None
  show ?thesis
  proof (cases b)
    case True
    with None lookup_None_no_match(2) [OF _ assms, of s] show ?thesis
      by (auto simp: lookup_append)
  next
    case False
    with None lookup_None_no_match(1) [OF _ assms, of s] show ?thesis
      by (auto simp: lookup_append)
  qed
next
  case (Some r)
  then show ?thesis by (simp add: lookup_append)
qed

lemma genericReplace_cong_lookup:
  assumes "\<And>s b. lookup ps s b = lookup ps' s b"
  shows "genericReplace ps s b = genericReplace ps' s b"
  using assms
proof (induction ps s b rule: genericReplace.induct)
  case (1 ps s b)
  note same = "1.prems"
  show ?case
  proof (cases "lookup ps s b")
    case None
    show ?thesis
    proof (cases s)
      case Nil
      with None same [of s b] show ?thesis
        by (subst genericReplace.simps, subst (2) genericReplace.simps) simp
    next
      case (Cons c cs)
      from "1.IH"(1) [OF None Cons same] None same [of s b] Cons show ?thesis
        by (subst genericReplace.simps, subst (2) genericReplace.simps) simp
    qed
  next
    case (Some x)
    obtain val keylen where x: "x = (val, keylen)" by (cases x)
    from "1.IH"(2) [OF Some x [symmetric] same] Some x same [of s b] show ?thesis
      by (subst genericReplace.simps, subst (2) genericReplace.simps) simp
  qed
qed

lemma same_length_prefixes:
  "HasPrefix s old1 \<Longrightarrow> HasPrefix s old2 \<Longrightarrow> length old1 = length old2 \<Longrightarrow> old1 = old2"
  by (auto simp: HasPrefix_def)

text \<open>
  Claim C5. Old patterns of equal length that match at the same position are the same
  string, and among pairs with the same old pattern the one listed earliest wins: a pair
  whose old pattern is already listed can be struck from the list without changing what
  the replacer does to any text. For \<^verbatim>\<open>("a","X"), ("a","Y")\<close> the text \<^verbatim>\<open>a\<close> becomes \<^verbatim>\<open>X\<close>.
\<close>

theorem earliest_listed_pair_wins_ties:
  assumes "holdsPairs csv app w (ps @ (old, new) # qs)"
    and "old \<in> fst ` set ps"
    and "holdsPairs csv' app' w' (ps @ qs)"
  shows "\<exists>r r'. fst (loadSubstitutions csv app w) = Inr r \<and>
    fst (loadSubstitutions csv' app' w') = Inr r' \<and>
    (\<forall>s. Replace r s = Replace r' s) \<and>
    (\<forall>s old1 old2. HasPrefix s old1 \<and> HasPrefix s old2 \<and> length old1 = length old2
        \<longrightarrow> old1 = old2) \<and>
    (ps = [(''a'', ''X'')] \<and> old = ''a'' \<and> new = ''Y'' \<and> qs = [] \<longrightarrow> Replace r ''a'' = ''X'')"
proof (intro exI conjI allI impI)
  show "fst (loadSubstitutions csv app w) = Inr (build (flatten (ps @ (old, new) # qs)))"
    by (rule holdsPairs_loaded [OF assms(1)])
  show "fst (loadSubstitutions csv' app' w') = Inr (build (flatten (ps @ qs)))"
    by (rule holdsPairs_loaded [OF assms(3)])
next
  fix s
  show "Replace (build (flatten (ps @ (old, new) # qs))) s = Replace (build (flatten (ps @ qs))) s"
    unfolding Replace_build
    by (rule genericReplace_cong_lookup) (rule lookup_drop_later_duplicate [OF assms(2)])
next
  fix s old1 old2
  assume "HasPrefix s old1 \<and> HasPrefix s old2 \<and> length old1 = length old2"
  then show "old1 = old2" by (auto intro: same_length_prefixes)
next
  assume "ps = [(''a'', ''X'')] \<and> old = ''a'' \<and> new = ''Y'' \<and> qs = []"
  then show "Replace (build (flatten (ps @ (old, new) # qs))) ''a'' = ''X''"
    by (simp add: build_def)
qed

text \<open>The pattern files \<^verbatim>\<open>a,X\<close>, \<^verbatim>\<open>a,Y\<close> and \<^verbatim>\<open>a,X\<close> alone.\<close>

theorem earliest_listed_pair_wins_ties_witness:
  "holdsPairs csvPlain (zeroAppEnv\<lparr>patFile := ''subs.csv''\<rparr>)
     (worldOf [(''subs.csv'', ''a,X'' @ CHR 0x0A # ''a,Y'')]) ([(''a'', ''X'')] @ (''a'', ''Y'') # []) \<and>
   ''a'' \<in> fst ` set [(''a'', ''X'')] \<and>
   holdsPairs csvPlain (zeroAppEnv\<lparr>patFile := ''one.csv''\<rparr>)
     (worldOf [(''one.csv'', ''a,X'')]) ([(''a'', ''X'')] @ []) \<and>
   replaceWith (fst (loadSubstitutions csvPlain (zeroAppEnv\<lparr>patFile := ''subs.csv''\<rparr>)
     (worldOf [(''subs.csv'', ''a,X'' @ CHR 0x0A # ''a,Y'')]))) ''a'' = Inr ''X'' \<and>
   replaceWith (fst (loadSubstitutions csvPlain (zeroAppEnv\<lparr>patFile := ''one.csv''\<rparr>)
     (worldOf [(''one.csv'', ''a,X'')]))) ''a'' = Inr ''X''"
proof -
  have h1: "holdsPairs csvPlain (zeroAppEnv\<lparr>patFile := ''subs.csv''\<rparr>)
     (worldOf [(''subs.csv'', ''a,X'' @ CHR 0x0A # ''a,Y'')]) ([(''a'', ''X'')] @ (''a'', ''Y'') # [])"
    by (simp add: eval_load)
  have h2: "''a'' \<in> fst ` set [(''a'', ''X'')]" by simp
  have h3: "holdsPairs csvPlain (zeroAppEnv\<lparr>patFile := ''one.csv''\<rparr>)
     (worldOf [(''one.csv'', ''a,X'')]) ([(''a'', ''X'')] @ [])"
    by (simp add: eval_load)
  from earliest_listed_pair_wins_ties [OF h1 h2 h3] h1 h2 h3 show ?thesis
    by (auto simp: replaceWith_def)
qed


subsection \<open>Empty old patterns\<close>

lemma maxNew_ge: "(old, new) \<in> set ps \<Longrightarrow> length new \<le> maxNew ps"
  by (induction ps) auto

lemma lookup_in_set: "lookup ps s b = Some (val, k) \<Longrightarrow> \<exists>old. (old, val) \<in> set ps \<and> k = length old"
  by (induction ps) (auto split: if_splits)

lemma genericReplace_length:
  "length (genericReplace ps s b) \<le> (2 * length s + (if b then 0 else 1)) * max 1 (maxNew ps)"
proof (induction ps s b rule: genericReplace.induct)
  case (1 ps s b)
  let ?K = "max 1 (maxNew ps)"
  show ?case
  proof (cases "lookup ps s b")
    case None
    show ?thesis
    proof (cases s)
      case Nil
      with None show ?thesis by (subst genericReplace.simps) simp
    next
      case (Cons c cs)
      from "1.IH"(1) [OF None Cons]
      have "length (genericReplace ps cs False) \<le> (2 * length cs + 1) * ?K" by simp
      moreover have "genericReplace ps s b = c # genericReplace ps cs False"
        using None Cons by (subst genericReplace.simps) simp
      moreover have "1 + (2 * length cs + 1) * ?K \<le> (2 * length s + (if b then 0 else 1)) * ?K"
      proof -
        have "1 + (2 * length cs + 1) * ?K \<le> ?K + (2 * length cs + 1) * ?K" by simp
        also have "\<dots> = (2 * length s) * ?K" using Cons by (simp add: algebra_simps)
        also have "\<dots> \<le> (2 * length s + (if b then 0 else 1)) * ?K" by simp
        finally show ?thesis .
      qed
      ultimately show ?thesis by simp
    qed
  next
    case (Some x)
    obtain val keylen where x: "x = (val, keylen)" by (cases x)
    from Some x lookup_in_set [of ps s b val keylen] maxNew_ge [of _ val ps]
    have val: "length val \<le> ?K" by fastforce
    from lookup_bounds [of ps s b val keylen] Some x
    have bounds: "keylen \<le> length s" "b \<Longrightarrow> 0 < keylen" by (auto split: if_splits)
    have eq: "genericReplace ps s b = val @ genericReplace ps (drop keylen s) (keylen = 0)"
      using Some x by (subst genericReplace.simps) simp
    from "1.IH"(2) [OF Some x [symmetric]]
    have ih: "length (genericReplace ps (drop keylen s) (keylen = 0))
        \<le> (2 * length (drop keylen s) + (if keylen = 0 then 0 else 1)) * ?K" .
    show ?thesis
    proof (cases "keylen = 0")
      case True
      with bounds have "\<not> b" by auto
      with True ih val eq show ?thesis by (simp add: algebra_simps)
    next
      case False
      with ih have "length (genericReplace ps (drop keylen s) (keylen = 0))
          \<le> (2 * (length s - keylen) + 1) * ?K" by simp
      also have "\<dots> \<le> (2 * length s - 1) * ?K"
        using False bounds by (intro mult_le_mono1) linarith
      finally have "length (genericReplace ps s b) \<le> ?K + (2 * length s - 1) * ?K"
        using val eq by simp
      also have "\<dots> = (2 * length s) * ?K"
        using False bounds by (cases "length s") (simp_all add: algebra_simps)
      also have "\<dots> \<le> (2 * length s + (if b then 0 else 1)) * ?K" by simp
      finally show ?thesis .
    qed
  qed
qed

lemma lookup_empty_text:
  "lookup ps [] False =
     map_option (\<lambda>(old, new). (new, 0)) (find (\<lambda>(old, new). old = []) ps)"
  "lookup ps [] True = None"
  by (induction ps) (auto simp: HasPrefix_def)

lemma genericReplace_ends_with_new:
  assumes "find (\<lambda>(old, new). old = []) ps = Some ([], new)" and "\<not> (b \<and> s = [])"
  shows "suffix new (genericReplace ps s b)"
  using assms
proof (induction ps s b rule: genericReplace.induct)
  case (1 ps s b)
  note first = "1.prems"(1) and notend = "1.prems"(2)
  show ?case
  proof (cases "lookup ps s b")
    case None
    show ?thesis
    proof (cases s)
      case Nil
      with notend have "\<not> b" by simp
      with None Nil first show ?thesis by (simp add: lookup_empty_text)
    next
      case (Cons c cs)
      have "genericReplace ps s b = c # genericReplace ps cs False"
        using None Cons by (subst genericReplace.simps) simp
      with "1.IH"(1) [OF None Cons first] show ?thesis by (simp add: suffix_ConsI)
    qed
  next
    case (Some x)
    obtain val keylen where x: "x = (val, keylen)" by (cases x)
    have eq: "genericReplace ps s b = val @ genericReplace ps (drop keylen s) (keylen = 0)"
      using Some x by (subst genericReplace.simps) simp
    show ?thesis
    proof (cases "keylen = 0 \<and> s = []")
      case True
      with notend have "\<not> b" by simp
      with Some x True first have "val = new" by (simp add: lookup_empty_text)
      moreover have "genericReplace ps [] True = []"
        by (subst genericReplace.simps) (simp add: lookup_empty_text)
      ultimately show ?thesis using eq True by simp
    next
      case False
      then have "\<not> (keylen = 0 \<and> drop keylen s = [])" by auto
      from "1.IH"(2) [OF Some x [symmetric] first this] eq show ?thesis
        by (simp add: suffix_appendI)
    qed
  qed
qed

lemma genericReplace_sole_empty:
  "genericReplace [([], new)] s False = new @ concat (map (\<lambda>c. c # new) s)"
proof (induction s)
  case Nil
  have "genericReplace [([], new)] [] True = []"
    by (subst genericReplace.simps) (simp add: HasPrefix_def)
  then show ?case
    by (subst genericReplace.simps) (simp add: HasPrefix_def)
next
  case (Cons c cs)
  have "genericReplace [([], new)] (c # cs) True = c # genericReplace [([], new)] cs False"
    by (subst genericReplace.simps) (simp add: HasPrefix_def)
  with Cons show ?case
    by (subst genericReplace.simps) (simp add: HasPrefix_def)
qed


text \<open>
  Claim C6, as the code has it. A pair with an empty old pattern is not rejected:
  \<^verbatim>\<open>loadSubstitutions\<close> returns a replacer for every pair list. Applying it ends on every
  text, with at most \<open>(2 * length s + 1) * max 1 (maxNew ps)\<close> bytes of output. The empty
  pattern does match at zero-width positions: at every position the scan reaches at which
  the earliest-listed matching pattern is an empty one, its new string is inserted, once;
  then the earliest-listed non-empty match at that position is replaced or, if there is
  none, the byte is copied, and the scan goes on behind it. So the new string of the
  earliest-listed pair with an empty old pattern ends every output, and for the single
  pair \<^verbatim>\<open>("", new)\<close> it is inserted before every byte and at the end.
\<close>

theorem empty_old_is_loaded_and_matches:
  assumes "holdsPairs csv app w ps"
  shows "\<exists>r. fst (loadSubstitutions csv app w) = Inr r \<and>
    (\<forall>s. length (Replace r s) \<le> (2 * length s + 1) * max 1 (maxNew ps)) \<and>
    (\<forall>s. Replace r s =
       (case find (\<lambda>(old, new). HasPrefix s old) ps of
          None \<Rightarrow> (case s of [] \<Rightarrow> [] | c # cs \<Rightarrow> c # Replace r cs)
        | Some (old, new) \<Rightarrow>
            if old \<noteq> [] then new @ Replace r (drop (length old) s)
            else new @ (case find (\<lambda>(old, new). old \<noteq> [] \<and> HasPrefix s old) ps of
                          None \<Rightarrow> (case s of [] \<Rightarrow> [] | c # cs \<Rightarrow> c # Replace r cs)
                        | Some (old', new') \<Rightarrow> new' @ Replace r (drop (length old') s)))) \<and>
    (\<forall>new s. find (\<lambda>(old, new). old = []) ps = Some ([], new) \<longrightarrow> suffix new (Replace r s)) \<and>
    (\<forall>new. ps = [([], new)] \<longrightarrow> (\<forall>s. Replace r s = new @ concat (map (\<lambda>c. c # new) s)))"
proof (intro exI conjI allI impI)
  show "fst (loadSubstitutions csv app w) = Inr (build (flatten ps))"
    by (rule holdsPairs_loaded [OF assms])
next
  fix s
  from genericReplace_length [of ps s False]
  show "length (Replace (build (flatten ps)) s) \<le> (2 * length s + 1) * max 1 (maxNew ps)"
    by (simp add: Replace_build)
next
  fix s
  show "Replace (build (flatten ps)) s =
       (case find (\<lambda>(old, new). HasPrefix s old) ps of
          None \<Rightarrow> (case s of [] \<Rightarrow> [] | c # cs \<Rightarrow> c # Replace (build (flatten ps)) cs)
        | Some (old, new) \<Rightarrow>
            if old \<noteq> [] then new @ Replace (build (flatten ps)) (drop (length old) s)
            else new @ (case find (\<lambda>(old, new). old \<noteq> [] \<and> HasPrefix s old) ps of
                          None \<Rightarrow> (case s of [] \<Rightarrow> [] | c # cs \<Rightarrow> c # Replace (build (flatten ps)) cs)
                        | Some (old', new') \<Rightarrow> new' @ Replace (build (flatten ps)) (drop (length old') s)))"
    unfolding Replace_build by (rule genericReplace_scan)
next
  fix new s
  assume "find (\<lambda>(old, new). old = []) ps = Some ([], new)"
  from genericReplace_ends_with_new [OF this, of False s]
  show "suffix new (Replace (build (flatten ps)) s)"
    by (simp add: Replace_build)
next
  fix new s
  assume "ps = [([], new)]"
  then show "Replace (build (flatten ps)) s = new @ concat (map (\<lambda>c. c # new) s)"
    unfolding Replace_build by (simp add: genericReplace_sole_empty)
qed


text \<open>
  The pattern file \<^verbatim>\<open>a,1\<close>, \<^verbatim>\<open>,X\<close>, for which \<^verbatim>\<open>ba\<close> becomes \<^verbatim>\<open>Xb1X\<close>, and the pattern file
  \<^verbatim>\<open>,X\<close>.
\<close>

theorem empty_old_is_loaded_and_matches_witness:
  "holdsPairs csvPlain (zeroAppEnv\<lparr>patFile := ''subs.csv''\<rparr>)
     (worldOf [(''subs.csv'', ''a,1'' @ CHR 0x0A # '',X'')]) [(''a'', ''1''), ([], ''X'')] \<and>
   find (\<lambda>(old, new). old = []) [(''a'', ''1''), ([], ''X'')] = Some ([], ''X'') \<and>
   find (\<lambda>(old, new). HasPrefix ''ba'' old) [(''a'', ''1''), ([], ''X'')] = Some ([], ''X'') \<and>
   replaceWith (fst (loadSubstitutions csvPlain (zeroAppEnv\<lparr>patFile := ''subs.csv''\<rparr>)
     (worldOf [(''subs.csv'', ''a,1'' @ CHR 0x0A # '',X'')]))) ''ba'' = Inr ''Xb1X'' \<and>
   length ''Xb1X'' \<le> (2 * length ''ba'' + 1) * max 1 (maxNew [(''a'', ''1''), ([], ''X'')]) \<and>
   suffix ''X'' ''Xb1X'' \<and>
   holdsPairs csvPlain (zeroAppEnv\<lparr>patFile := ''subs.csv''\<rparr>)
     (worldOf [(''subs.csv'', '',X'')]) [([], ''X'')] \<and>
   replaceWith (fst (loadSubstitutions csvPlain (zeroAppEnv\<lparr>patFile := ''subs.csv''\<rparr>)
     (worldOf [(''subs.csv'', '',X'')]))) ''ab'' = Inr (''X'' @ concat (map (\<lambda>c. c # ''X'') ''ab''))"
proof -
  let ?app = "zeroAppEnv\<lparr>patFile := ''subs.csv''\<rparr>"
  let ?w = "worldOf [(''subs.csv'', ''a,1'' @ CHR 0x0A # '',X'')]"
  let ?w' = "worldOf [(''subs.csv'', '',X'')]"
  have h: "holdsPairs csvPlain ?app ?w [(''a'', ''1''), ([], ''X'')]"
    by (simp add: eval_load)
  have h': "holdsPairs csvPlain ?app ?w' [([], ''X'')]"
    by (simp add: eval_load)
  have f: "find (\<lambda>(old, new). old = []) [(''a'', ''1''), ([], ''X'')] = Some ([], ''X'')"
    by simp
  have g: "find (\<lambda>(old, new). HasPrefix ''ba'' old) [(''a'', ''1''), ([], ''X'')] = Some ([], ''X'')"
    by (simp add: HasPrefix_def)
  have run: "replaceWith (fst (loadSubstitutions csvPlain ?app ?w)) ''ba'' = Inr ''Xb1X''"
    by (simp add: eval_load genericReplace.simps HasPrefix_def)
  have sf: "suffix ''X'' ''Xb1X''"
    by (rule suffixI [of _ "''Xb1''"]) simp
  from empty_old_is_loaded_and_matches [OF h'] h'
  have sole: "replaceWith (fst (loadSubstitutions csvPlain ?app ?w')) ''ab''
      = Inr (''X'' @ concat (map (\<lambda>c. c # ''X'') ''ab''))"
    by (auto simp: replaceWith_def)
  have len: "length ''Xb1X'' \<le> (2 * length ''ba'' + 1) * max 1 (maxNew [(''a'', ''1''), ([], ''X'')])"
    by simp
  from empty_old_is_loaded_and_matches [OF h] f g run h h' sf sole len show ?thesis
    by (simp only: simp_thms)
qed


text \<open>
  Claim C6 as stated fails: the pattern file \<^verbatim>\<open>,X\<close> is loaded, and its new string is
  inserted before every byte and at the end of \<^verbatim>\<open>ab\<close>; after \<^verbatim>\<open>ab,1\<close> it is still inserted
  at the end.
\<close>

theorem empty_old_counterexample:
  "fst (loadSubstitutions csvPlain (zeroAppEnv\<lparr>patFile := ''subs.csv''\<rparr>)
     (worldOf [(''subs.csv'', '',X'')])) = Inr (Generic [([], ''X'')]) \<and>
   Replace (Generic [([], ''X'')]) ''ab'' = ''XaXbX'' \<and>
   fst (loadSubstitutions csvPlain (zeroAppEnv\<lparr>patFile := ''subs.csv''\<rparr>)
     (worldOf [(''subs.csv'', ''ab,1'' @ CHR 0x0A # '',X'')])) = Inr (Generic [(''ab'', ''1''), ([], ''X'')]) \<and>
   Replace (Generic [(''ab'', ''1''), ([], ''X'')]) ''ab'' = ''1X''"
  by (simp add: eval_load genericReplace.simps HasPrefix_def)

subsection \<open>Dry runs\<close>

text \<open>
  Claim C7. With the dry-run flag set, \<^verbatim>\<open>processFile\<close> (either variant) writes to no
  file, for every path and every replacer: the files are as before and the one call made
  is the read. It prints the path if and only if the file could be read and the replaced
  content differs from the original content.
\<close>

theorem dry_run_never_writes:
  assumes "dryRun app"
  shows "files (snd (processFile app path r w)) = files w \<and>
    calls (snd (processFile app path r w)) = calls w @ [ReadFileCall path] \<and>
    stdout (snd (processFile app path r w)) =
      stdout w @ (case readContent w path of
                    Inl err \<Rightarrow> []
                  | Inr old \<Rightarrow> if Replace r old \<noteq> old then [path] else []) \<and>
    files (snd (processFile_Stat app path r w)) = files w \<and>
    calls (snd (processFile_Stat app path r w)) = calls w @ [ReadFileCall path] \<and>
    stdout (snd (processFile_Stat app path r w)) =
      stdout w @ (case readContent w path of
                    Inl err \<Rightarrow> []
                  | Inr old \<Rightarrow> if Replace r old \<noteq> old then [path] else [])"
  using assms
  by (cases "readContent w path")
     (auto simp: processFile_def processFile_Stat_def ReadFile_def called_def Let_def)

text \<open>A dry run on a file that would change, and on one that would not.\<close>

theorem dry_run_never_writes_witness:
  "dryRun (zeroAppEnv\<lparr>dryRun := True\<rparr>) \<and>
   processFile (zeroAppEnv\<lparr>dryRun := True\<rparr>) ''in.txt'' (build [''a'', ''b''])
     (worldOf [(''in.txt'', ''abc'')])
   = (None, (worldOf [(''in.txt'', ''abc'')])\<lparr>stdout := [''in.txt''], calls := [ReadFileCall ''in.txt'']\<rparr>) \<and>
   processFile (zeroAppEnv\<lparr>dryRun := True\<rparr>) ''in.txt'' (build [''x'', ''y''])
     (worldOf [(''in.txt'', ''abc'')])
   = (None, (worldOf [(''in.txt'', ''abc'')])\<lparr>calls := [ReadFileCall ''in.txt'']\<rparr>)"
  using dry_run_never_writes [of "zeroAppEnv\<lparr>dryRun := True\<rparr>" "''in.txt''" "build [''a'', ''b'']"
      "worldOf [(''in.txt'', ''abc'')]"]
  by (simp add: zeroAppEnv_def processFile_def ReadFile_def readContent_def worldOf_def
      called_def build_def Let_def)

subsection \<open>The mode passed on write\<close>

text \<open>
  Claim C9. On a file that can be read and stat-ed, outside a dry run, both variants of
  \<^verbatim>\<open>processFile\<close> pass the same replaced content to \<^verbatim>\<open>os.WriteFile\<close>, and leave the same
  content in the file when the write succeeds; they differ in the mode they pass: one
  always passes \<^verbatim>\<open>0o644\<close> (420), the other the mode that \<^verbatim>\<open>os.Stat\<close> found.
\<close>

theorem processFile_variants_same_content_other_mode:
  assumes "\<not> dryRun app"
    and "files w path = Some f"
    and "readFault w path = None"
    and "statFault w path = None"
  shows "calls (snd (processFile app path r w)) =
      calls w @ [ReadFileCall path, WriteFileCall path (Replace r (content f)) 420] \<and>
    calls (snd (processFile_Stat app path r w)) =
      calls w @ [ReadFileCall path, StatCall path, WriteFileCall path (Replace r (content f)) (mode f)] \<and>
    (writeFault w path = None \<longrightarrow>
       files (snd (processFile app path r w)) path = Some (f\<lparr>content := Replace r (content f)\<rparr>) \<and>
       files (snd (processFile_Stat app path r w)) path = Some (f\<lparr>content := Replace r (content f)\<rparr>))"
  using assms
  by (cases "writeFault w path")
     (auto simp: processFile_def processFile_Stat_def ReadFile_def Stat_def WriteFile_def
        readContent_def called_def Let_def)

text \<open>A file of mode \<^verbatim>\<open>0o755\<close> (493).\<close>

theorem processFile_variants_same_content_other_mode_witness:
  "\<not> dryRun zeroAppEnv \<and>
   calls (snd (processFile zeroAppEnv ''run.sh'' (build [''a'', ''b''])
     ((worldOf [])\<lparr>files := [''run.sh'' \<mapsto> \<lparr>content = ''abc'', mode = 493\<rparr>]\<rparr>)))
   = [ReadFileCall ''run.sh'', WriteFileCall ''run.sh'' ''bbc'' 420] \<and>
   calls (snd (processFile_Stat zeroAppEnv ''run.sh'' (build [''a'', ''b''])
     ((worldOf [])\<lparr>files := [''run.sh'' \<mapsto> \<lparr>content = ''abc'', mode = 493\<rparr>]\<rparr>)))
   = [ReadFileCall ''run.sh'', StatCall ''run.sh'', WriteFileCall ''run.sh'' ''bbc'' 493]"
  using processFile_variants_same_content_other_mode [of zeroAppEnv
      "(worldOf [])\<lparr>files := [''run.sh'' \<mapsto> \<lparr>content = ''abc'', mode = 493\<rparr>]\<rparr>" "''run.sh''"
      "\<lparr>content = ''abc'', mode = 493\<rparr>" "build [''a'', ''b'']"]
  by (simp add: zeroAppEnv_def worldOf_def build_def)

subsection \<open>Errors end the run\<close>

lemma processFiles_append:
  "processFiles app r before w = (None, w1) \<Longrightarrow>
   processFiles app r (before @ rest) w = processFiles app r rest w1"
proof (induction before arbitrary: w)
  case Nil
  then show ?case by simp
next
  case (Cons p ps)
  then show ?case
    by (cases "processFile app p r w") (auto split: option.splits)
qed

lemma processFiles_Stat_append:
  "processFiles_Stat app r before w = (None, w1) \<Longrightarrow>
   processFiles_Stat app r (before @ rest) w = processFiles_Stat app r rest w1"
proof (induction before arbitrary: w)
  case Nil
  then show ?case by simp
next
  case (Cons p ps)
  then show ?case
    by (cases "processFile_Stat app p r w") (auto split: option.splits)
qed

lemma loadSubstitutions_world:
  "snd (loadSubstitutions csv app w) = called (OpenCall (patFile app)) w"
  by (auto simp: loadSubstitutions_def Open_def split: sum.splits option.splits)

lemma processFile_error:
  assumes "processFile app path r w = (Some err, w')"
  shows "((\<exists>e. readContent w path = Inl e \<and> err = ErrReading path e) \<and>
          calls w' = calls w @ [ReadFileCall path]) \<or>
         (\<exists>e old. readContent w path = Inr old \<and> writeFault w path = Some e \<and>
            err = ErrWriting path e \<and>
            calls w' = calls w @ [ReadFileCall path, WriteFileCall path (Replace r old) 420])"
  using assms
  by (cases "readContent w path"; cases "writeFault w path")
     (auto simp: processFile_def ReadFile_def WriteFile_def called_def Let_def
        split: if_splits)

lemma processFile_Stat_error:
  assumes "processFile_Stat app path r w = (Some err, w')"
  shows "((\<exists>e. readContent w path = Inl e \<and> err = ErrReading path e) \<and>
          calls w' = calls w @ [ReadFileCall path]) \<or>
         ((\<exists>e. fst (Stat path w) = Inl e \<and> err = ErrStating path e) \<and>
          calls w' = calls w @ [ReadFileCall path, StatCall path]) \<or>
         (\<exists>e old info_mode. readContent w path = Inr old \<and> writeFault w path = Some e \<and>
            err = ErrWriting path e \<and>
            calls w' = calls w @ [ReadFileCall path, StatCall path,
              WriteFileCall path (Replace r old) info_mode])"
  using assms
  by (cases "readContent w path"; cases "writeFault w path"; cases "statFault w path";
      cases "files w path")
     (auto simp: processFile_Stat_def ReadFile_def Stat_def WriteFile_def called_def Let_def
        split: if_splits)

text \<open>
  Claim C8. An error loading the substitution file ends \<^verbatim>\<open>Exec\<close> with that error before
  any walk or file processing: the one call made is the opening of the pattern file. An
  error of \<^verbatim>\<open>processFile\<close> on a selected path ends \<^verbatim>\<open>Exec\<close> with that error and with
  the world as that call of \<^verbatim>\<open>processFile\<close> left it, whatever paths come later in the
  list: the last calls are those on the failing path. A failed read, and a failed write
  outside a dry run, are such errors. This holds for both variants of the file.
\<close>

theorem Exec_stops_at_first_error:
  "(fst (loadSubstitutions csv app w) = Inl err0 \<longrightarrow>
      Exec csv m app tree w = (Some err0, called (OpenCall (patFile app)) w) \<and>
      Exec_Stat csv m app tree w = (Some err0, called (OpenCall (patFile app)) w)) \<and>
   (loadSubstitutions csv app w = (Inr r, w1) \<and>
    walkDir m app tree w1 = (before @ path # later, w2) \<and>
    processFiles app r before w2 = (None, w3) \<and>
    processFile app path r w3 = (Some err, w4) \<longrightarrow>
      Exec csv m app tree w = (Some err, w4) \<and>
      (calls w4 = calls w3 @ [ReadFileCall path] \<or>
       (\<exists>data. calls w4 = calls w3 @ [ReadFileCall path, WriteFileCall path data 420]))) \<and>
   (loadSubstitutions csv app w = (Inr r, w1) \<and>
    walkDir_Walk m app tree w1 = (before @ path # later, w2) \<and>
    processFiles_Stat app r before w2 = (None, w3) \<and>
    processFile_Stat app path r w3 = (Some err, w4) \<longrightarrow>
      Exec_Stat csv m app tree w = (Some err, w4) \<and>
      (calls w4 = calls w3 @ [ReadFileCall path] \<or>
       calls w4 = calls w3 @ [ReadFileCall path, StatCall path] \<or>
       (\<exists>data perm. calls w4 = calls w3 @ [ReadFileCall path, StatCall path,
          WriteFileCall path data perm]))) \<and>
   (readContent w3 path = Inl e \<longrightarrow>
      processFile app path r w3 = (Some (ErrReading path e), called (ReadFileCall path) w3) \<and>
      processFile_Stat app path r w3 = (Some (ErrReading path e), called (ReadFileCall path) w3)) \<and>
   (\<not> dryRun app \<and> readContent w3 path = Inr old \<and> writeFault w3 path = Some e \<longrightarrow>
      fst (processFile app path r w3) = Some (ErrWriting path e) \<and>
      (statFault w3 path = None \<longrightarrow> fst (processFile_Stat app path r w3) = Some (ErrWriting path e)))"
proof (intro conjI impI)
  assume "fst (loadSubstitutions csv app w) = Inl err0"
  with loadSubstitutions_world [of csv app w]
  have l: "loadSubstitutions csv app w = (Inl err0, called (OpenCall (patFile app)) w)"
    by (cases "loadSubstitutions csv app w") simp
  then show "Exec csv m app tree w = (Some err0, called (OpenCall (patFile app)) w)"
    by (simp add: Exec_def)
  from l show "Exec_Stat csv m app tree w = (Some err0, called (OpenCall (patFile app)) w)"
    by (simp add: Exec_Stat_def)
next
  assume a: "loadSubstitutions csv app w = (Inr r, w1) \<and>
    walkDir m app tree w1 = (before @ path # later, w2) \<and>
    processFiles app r before w2 = (None, w3) \<and>
    processFile app path r w3 = (Some err, w4)"
  then have "processFiles app r (before @ path # later) w2 = (Some err, w4)"
    by (simp add: processFiles_append)
  with a show "Exec csv m app tree w = (Some err, w4)"
    by (simp add: Exec_def)
  from a processFile_error [of app path r w3 err w4]
  show "calls w4 = calls w3 @ [ReadFileCall path] \<or>
       (\<exists>data. calls w4 = calls w3 @ [ReadFileCall path, WriteFileCall path data 420])"
    by blast
next
  assume a: "loadSubstitutions csv app w = (Inr r, w1) \<and>
    walkDir_Walk m app tree w1 = (before @ path # later, w2) \<and>
    processFiles_Stat app r before w2 = (None, w3) \<and>
    processFile_Stat app path r w3 = (Some err, w4)"
  then have "processFiles_Stat app r (before @ path # later) w2 = (Some err, w4)"
    by (simp add: processFiles_Stat_append)
  with a show "Exec_Stat csv m app tree w = (Some err, w4)"
    by (simp add: Exec_Stat_def)
  from a processFile_Stat_error [of app path r w3 err w4]
  show "calls w4 = calls w3 @ [ReadFileCall path] \<or>
       calls w4 = calls w3 @ [ReadFileCall path, StatCall path] \<or>
       (\<exists>data perm. calls w4 = calls w3 @ [ReadFileCall path, StatCall path,
          WriteFileCall path data perm])"
    by blast
next
  assume "readContent w3 path = Inl e"
  then show "processFile app path r w3 = (Some (ErrReading path e), called (ReadFileCall path) w3)"
    and "processFile_Stat app path r w3 = (Some (ErrReading path e), called (ReadFileCall path) w3)"
    by (simp_all add: processFile_def processFile_Stat_def ReadFile_def)
next
  assume a: "\<not> dryRun app \<and> readContent w3 path = Inr old \<and> writeFault w3 path = Some e"
  then show "fst (processFile app path r w3) = Some (ErrWriting path e)"
    by (simp add: processFile_def ReadFile_def WriteFile_def called_def Let_def)
  assume "statFault w3 path = None"
  with a show "fst (processFile_Stat app path r w3) = Some (ErrWriting path e)"
    by (auto simp: processFile_Stat_def ReadFile_def Stat_def WriteFile_def called_def Let_def
        readContent_def split: option.splits)
qed

text \<open>
  Three selected files, the second of which cannot be read: the first one is rewritten,
  the third one is neither read nor written.
\<close>

theorem Exec_stops_at_first_error_witness:
  "fst (Exec csvPlain Match
     (zeroAppEnv\<lparr>patFile := ''subs.csv'', dir := ''.'', incFile := [''*.txt''], exFile := [''.*''],
        incDir := [''*''], exDir := [''.*'']\<rparr>)
     (Dir ''.'' [File ''a.txt'', File ''b.txt'', File ''c.txt'', File ''subs.csv''] None)
     ((worldOf [(''subs.csv'', ''x,y''), (''a.txt'', ''xa''), (''b.txt'', ''xb''), (''c.txt'', ''xc'')])
        \<lparr>readFault := [''b.txt'' \<mapsto> EACCES]\<rparr>))
   = Some (ErrReading ''b.txt'' EACCES) \<and>
   calls (snd (Exec csvPlain Match
     (zeroAppEnv\<lparr>patFile := ''subs.csv'', dir := ''.'', incFile := [''*.txt''], exFile := [''.*''],
        incDir := [''*''], exDir := [''.*'']\<rparr>)
     (Dir ''.'' [File ''a.txt'', File ''b.txt'', File ''c.txt'', File ''subs.csv''] None)
     ((worldOf [(''subs.csv'', ''x,y''), (''a.txt'', ''xa''), (''b.txt'', ''xb''), (''c.txt'', ''xc'')])
        \<lparr>readFault := [''b.txt'' \<mapsto> EACCES]\<rparr>)))
   = [OpenCall ''subs.csv'', WalkCall ''.'', ReadFileCall ''a.txt'',
      WriteFileCall ''a.txt'' ''ya'' 420, ReadFileCall ''b.txt'']"
proof -
  let ?app = "zeroAppEnv\<lparr>patFile := ''subs.csv'', dir := ''.'', incFile := [''*.txt''],
        exFile := [''.*''], incDir := [''*''], exDir := [''.*'']\<rparr>"
  let ?tree = "Dir ''.'' [File ''a.txt'', File ''b.txt'', File ''c.txt'', File ''subs.csv''] None"
  let ?w = "(worldOf [(''subs.csv'', ''x,y''), (''a.txt'', ''xa''), (''b.txt'', ''xb''), (''c.txt'', ''xc'')])
        \<lparr>readFault := [''b.txt'' \<mapsto> EACCES]\<rparr>"
  let ?r = "build [''x'', ''y'']"
  let ?w1 = "called (OpenCall ''subs.csv'') ?w"
  let ?w2 = "called (WalkCall ''.'') ?w1"
  let ?w3 = "snd (processFile ?app ''a.txt'' ?r ?w2)"
  let ?w4 = "called (ReadFileCall ''b.txt'') ?w3"
  have l: "loadSubstitutions csvPlain ?app ?w = (Inr ?r, ?w1)"
    by (simp add: loadSubstitutions_def Open_def readContent_def worldOf_def csvPlain_def
        ReadAll_def NewReplacer_def zeroAppEnv_def)
  have wk: "walkDir Match ?app ?tree ?w1 = ([''a.txt''] @ ''b.txt'' # [''c.txt''], ?w2)"
    by (simp add: eval_walk zeroAppEnv_def)
  have p1: "processFiles ?app ?r [''a.txt''] ?w2 = (None, ?w3)"
    by (simp add: eval_process readContent_def worldOf_def called_def zeroAppEnv_def)
  have p2: "processFile ?app ''b.txt'' ?r ?w3 = (Some (ErrReading ''b.txt'' EACCES), ?w4)"
    by (simp add: eval_process readContent_def worldOf_def called_def zeroAppEnv_def)
  have c: "calls ?w4 = [OpenCall ''subs.csv'', WalkCall ''.'', ReadFileCall ''a.txt'',
      WriteFileCall ''a.txt'' ''ya'' 420, ReadFileCall ''b.txt'']"
    by (simp add: eval_process readContent_def worldOf_def called_def zeroAppEnv_def build_def)
  from Exec_stops_at_first_error [where csv = csvPlain and app = ?app and w = ?w and r = ?r
      and ?w1.0 = ?w1 and m = Match and tree = ?tree and before = "[''a.txt'']" and path = "''b.txt''"
      and later = "[''c.txt'']" and ?w2.0 = ?w2 and ?w3.0 = ?w3 and err = "ErrReading ''b.txt'' EACCES"
      and ?w4.0 = ?w4] l wk p1 p2
  have "Exec csvPlain Match ?app ?tree ?w = (Some (ErrReading ''b.txt'' EACCES), ?w4)"
    by blast
  with c show ?thesis by (simp only: fst_conv snd_conv simp_thms)
qed

subsection \<open>The root directory\<close>

text \<open>
  Claim C3, as the code has it. When the walk visits the root directory under the path
  \<^verbatim>\<open>"."\<close> (the default of \<^verbatim>\<open>-dir\<close>), no include or exclude filter is applied to it and the
  walk goes on to its entries, in both variants. A root directory passed under any other
  path is filtered by its base name as every other directory is: it is pruned when an
  exclude-dir glob matches or no include-dir glob does.
\<close>

theorem root_dot_is_not_filtered:
  "(dir app = ''.'' \<longrightarrow>
      WalkDir (walkFn m app) (dir app) (Dir n entries None) =
        (''.'', RootDir) #
        concat (map (\<lambda>d1. WalkDir (walkFn m app) (Join ''.'' (name d1)) d1) entries) \<and>
      WalkDir (walkFn m app) (dir app) (Dir n entries (Some err)) =
        (''.'', RootDir) # (''.'', WalkError) #
        concat (map (\<lambda>d1. WalkDir (walkFn m app) (Join ''.'' (name d1)) d1) entries) \<and>
      Walk (walkFn m app) (dir app) (Dir n entries None) =
        (''.'', RootDir) #
        concat (map (\<lambda>d1. Walk (walkFn m app) (Join ''.'' (name d1)) d1) entries) \<and>
      fst (walkDir m app (Dir n entries None) w) =
        selected (concat (map (\<lambda>d1. WalkDir (walkFn m app) (Join ''.'' (name d1)) d1) entries)) \<and>
      fst (walkDir_Walk m app (Dir n entries None) w) =
        selected (concat (map (\<lambda>d1. Walk (walkFn m app) (Join ''.'' (name d1)) d1) entries))) \<and>
   (dir app \<noteq> ''.'' \<longrightarrow>
      WalkDir (walkFn m app) (dir app) (Dir n entries None) =
        (if anyMatch m (exDir app) n then [(dir app, ExcludeDir)]
         else if anyMatch m (incDir app) n
         then (dir app, MatchDir) #
              concat (map (\<lambda>d1. WalkDir (walkFn m app) (Join (dir app) (name d1)) d1) entries)
         else [(dir app, NoMatchDir)]) \<and>
      Walk (walkFn m app) (dir app) (Dir n entries None) =
        (if anyMatch m (exDir app) n then [(dir app, ExcludeDir)]
         else if anyMatch m (incDir app) n
         then (dir app, MatchDir) #
              concat (map (\<lambda>d1. Walk (walkFn m app) (Join (dir app) (name d1)) d1) entries)
         else [(dir app, NoMatchDir)]))"
  by (simp add: walkFn_def walkDir_def walkDir_Walk_def)

text \<open>The default filters on the root \<^verbatim>\<open>"."\<close>, and on the root \<^verbatim>\<open>".."\<close>, which they exclude.\<close>

theorem root_dot_is_not_filtered_witness:
  "dir (defaults (zeroAppEnv\<lparr>dir := ''.''\<rparr>)) = ''.'' \<and>
   WalkDir (walkFn Match (defaults (zeroAppEnv\<lparr>dir := ''.''\<rparr>))) ''.''
     (Dir ''.'' [File ''a.txt'', Dir ''sub'' [File ''b.txt''] None] None)
   = [(''.'', RootDir), (''a.txt'', MatchFile), (''sub'', MatchDir), (''sub/b.txt'', MatchFile)] \<and>
   fst (walkDir Match (defaults (zeroAppEnv\<lparr>dir := ''.''\<rparr>))
     (Dir ''.'' [File ''a.txt'', Dir ''sub'' [File ''b.txt''] None] None) (worldOf []))
   = [''a.txt'', ''sub/b.txt''] \<and>
   dir (defaults (zeroAppEnv\<lparr>dir := ''..''\<rparr>)) \<noteq> ''.'' \<and>
   anyMatch Match (exDir (defaults (zeroAppEnv\<lparr>dir := ''..''\<rparr>))) ''..'' \<and>
   fst (walkDir Match (defaults (zeroAppEnv\<lparr>dir := ''..''\<rparr>))
     (Dir ''..'' [File ''a.txt''] None) (worldOf [])) = []"
  using root_dot_is_not_filtered [of "defaults (zeroAppEnv\<lparr>dir := ''.''\<rparr>)" Match "''.''"
      "[File ''a.txt'', Dir ''sub'' [File ''b.txt''] None]" EIO "worldOf []"]
    root_dot_is_not_filtered [of "defaults (zeroAppEnv\<lparr>dir := ''..''\<rparr>)" Match "''..''"
      "[File ''a.txt'']" EIO "worldOf []"]
  by (simp add: defaults_def zeroAppEnv_def walkFn_def walkDir_def Join_def Match.simps)

text \<open>
  Claim C3 as stated fails: with the default filters the root \<^verbatim>\<open>.git\<close> is excluded and
  its file never visited, and a root that matches no include-dir glob is pruned as well;
  under the path \<^verbatim>\<open>"."\<close> the same file is selected.
\<close>

theorem root_is_filtered_counterexample:
  "dir (defaults (zeroAppEnv\<lparr>dir := ''.git''\<rparr>)) = ''.git'' \<and>
   WalkDir (walkFn Match (defaults (zeroAppEnv\<lparr>dir := ''.git''\<rparr>))) ''.git''
     (Dir ''.git'' [File ''config''] None)
   = [(''.git'', ExcludeDir)] \<and>
   Walk (walkFn Match (defaults (zeroAppEnv\<lparr>dir := ''.git''\<rparr>))) ''.git''
     (Dir ''.git'' [File ''config''] None)
   = [(''.git'', ExcludeDir)] \<and>
   fst (walkDir Match (defaults (zeroAppEnv\<lparr>dir := ''.git''\<rparr>))
     (Dir ''.git'' [File ''config''] None) (worldOf [])) = [] \<and>
   fst (walkDir Match (defaults (zeroAppEnv\<lparr>dir := ''src''\<rparr>\<lparr>incDir := [''lib'']\<rparr>))
     (Dir ''src'' [File ''a.txt''] None) (worldOf [])) = [] \<and>
   fst (walkDir Match (defaults (zeroAppEnv\<lparr>dir := ''.''\<rparr>))
     (Dir ''.'' [File ''config''] None) (worldOf [])) = [''config'']"
  by (simp add: defaults_def zeroAppEnv_def walkFn_def walkDir_def Join_def Match.simps)

subsection \<open>Exclude before include\<close>

text \<open>
  Claim C4. For every visited file and for every visited directory that is filtered,
  which is every directory but the root visited under the path \<^verbatim>\<open>"."\<close> (exempt from the
  filters, claim C3), the exclude globs are tested before the include globs and an
  exclude match wins whatever the include globs are: the directory is pruned (the walk
  visits nothing below it and selects nothing), the file is not selected. This holds for
  both walks and for every matcher.
\<close>

theorem exclude_wins_over_include:
  "(path \<noteq> ''.'' \<and> anyMatch m (exDir app) n \<longrightarrow>
      WalkDir (walkFn m app) path (Dir n entries rderr) = [(path, ExcludeDir)] \<and>
      selected (WalkDir (walkFn m app) path (Dir n entries rderr)) = [] \<and>
      map fst (Walk (walkFn m app) path (Dir n entries rderr)) = [path] \<and>
      Walk (walkFn m app) path (Dir n entries None) = [(path, ExcludeDir)] \<and>
      selected (Walk (walkFn m app) path (Dir n entries rderr)) = []) \<and>
   (anyMatch m (exFile app) n \<longrightarrow>
      WalkDir (walkFn m app) path (File n) = [(path, ExcludeFile)] \<and>
      selected (WalkDir (walkFn m app) path (File n)) = [] \<and>
      Walk (walkFn m app) path (File n) = [(path, ExcludeFile)] \<and>
      selected (Walk (walkFn m app) path (File n)) = [])"
  by (cases rderr) (simp_all add: walkFn_def)

text \<open>
  The directory \<^verbatim>\<open>tmp\<close> with \<^verbatim>\<open>incDir = ["*"]\<close>, \<^verbatim>\<open>exDir = ["tmp"]\<close>, and the file \<^verbatim>\<open>a.bak\<close> with
  \<^verbatim>\<open>incFile = ["*"]\<close>, \<^verbatim>\<open>exFile = ["*.bak"]\<close>.
\<close>

theorem exclude_wins_over_include_witness:
  "''tmp'' \<noteq> ''.'' \<and> anyMatch Match (exDir (zeroAppEnv\<lparr>incDir := [''*''], exDir := [''tmp'']\<rparr>)) ''tmp'' \<and>
   anyMatch Match (incDir (zeroAppEnv\<lparr>incDir := [''*''], exDir := [''tmp'']\<rparr>)) ''tmp'' \<and>
   WalkDir (walkFn Match (zeroAppEnv\<lparr>incDir := [''*''], exDir := [''tmp'']\<rparr>)) ''tmp''
     (Dir ''tmp'' [File ''a.txt''] None) = [(''tmp'', ExcludeDir)] \<and>
   anyMatch Match (exFile (zeroAppEnv\<lparr>incFile := [''*''], exFile := [''*.bak'']\<rparr>)) ''a.bak'' \<and>
   anyMatch Match (incFile (zeroAppEnv\<lparr>incFile := [''*''], exFile := [''*.bak'']\<rparr>)) ''a.bak'' \<and>
   WalkDir (walkFn Match (zeroAppEnv\<lparr>incFile := [''*''], exFile := [''*.bak'']\<rparr>)) ''a.bak''
     (File ''a.bak'') = [(''a.bak'', ExcludeFile)]"
  using exclude_wins_over_include [of "''tmp''" Match "zeroAppEnv\<lparr>incDir := [''*''], exDir := [''tmp'']\<rparr>"
      "''tmp''" "[File ''a.txt'']" None]
    exclude_wins_over_include [of "''a.bak''" Match "zeroAppEnv\<lparr>incFile := [''*''], exFile := [''*.bak'']\<rparr>"
      "''a.bak''" "[]" None]
  by (simp add: zeroAppEnv_def Match.simps)

end
